theory Spec2Isabelle
  imports Main "HOL-Library.Word" "HOL-Library.Signed_Division"
begin

unbundle bit_operations_syntax

chapter \<open>ANetworkSession: the Wi-Fi Display network session multiplexer\<close>

text \<open>
  A shallow embedding of \<^verbatim>\<open>src/native/wifi-display/ANetworkSession.cpp\<close>.
  Every member function of \<^verbatim>\<open>ANetworkSession::Session\<close> and of
  \<^verbatim>\<open>ANetworkSession\<close> that the properties below speak about is a HOL function of
  the same name. System calls are answered by a script of results held in the
  \<open>world\<close>; what the code hands to the outside (posted notifications, bytes given to
  \<^verbatim>\<open>send\<close>, bytes written to the wake pipe, closed sockets, the engine mutex) is
  appended to the world's trace, in program order.
\<close>

section \<open>Machine types and constants\<close>

type_synonym byte = "8 word"
type_synonym bytes = "byte list"
type_synonym int32 = "32 word"
type_synonym int64 = "64 word"

text \<open>
  \<^verbatim>\<open>status_t\<close> values: \<open>OK\<close> and negated \<^verbatim>\<open>errno\<close> codes (Linux numbering);
  \<^verbatim>\<open>INVALID_OPERATION\<close> is \<^verbatim>\<open>-ENOSYS\<close>.
\<close>

definition OK :: int where "OK = 0"
definition ENOENT :: int where "ENOENT = 2"
definition EINTR :: int where "EINTR = 4"
definition EAGAIN :: int where "EAGAIN = 11"
definition ECONNRESET :: int where "ECONNRESET = 104"
definition EINPROGRESS :: int where "EINPROGRESS = 115"
definition INVALID_OPERATION :: int where "INVALID_OPERATION = - 38"

text \<open>\<^verbatim>\<open>static const size_t kMaxUDPSize = 1500;\<close>\<close>

definition kMaxUDPSize :: nat where "kMaxUDPSize = 1500"

text \<open>
  How a run can fail to return a value: a \<^verbatim>\<open>CHECK\<close> macro aborts the process; an
  index lies outside the buffer it is applied to (undefined behaviour in C++); the
  script has no result left for a system call (the call never completes); a loop never
  exits.
\<close>

datatype fault = CheckFailed | OutOfRange | ScriptExhausted | Diverges

section \<open>The outside world\<close>

text \<open>
  \<^verbatim>\<open>struct sockaddr_in\<close>, with address and port already in host byte order (the
  values \<^verbatim>\<open>ntohl\<close> and \<^verbatim>\<open>ntohs\<close> return).
\<close>

record sockaddr_in =
  sin_addr :: "32 word"
  sin_port :: "16 word"

text \<open>
  The result of one system call: its return value, the \<^verbatim>\<open>errno\<close> it leaves, and
  whatever it stores through its pointer arguments (received bytes, a peer address, an
  option value and length, the ready sets of \<^verbatim>\<open>select\<close>, the first address of a
  resolved host or nothing for a \<^verbatim>\<open>NULL\<close> \<^verbatim>\<open>hostent\<close>, the two descriptors
  of \<^verbatim>\<open>pipe\<close>).
\<close>

record sysres =
  ret :: int
  errno :: int
  stored :: bytes
  address :: sockaddr_in
  optval :: int
  optlen :: nat
  readyR :: "int list"
  readyW :: "int list"
  h_addr :: "32 word option"
  fds :: "int \<times> int"

text \<open>
  The parsed RTSP message of \<^verbatim>\<open>ParsedMessage.h\<close> (not among the sources): only
  \<^verbatim>\<open>getContent()\<close> is used here; \<open>pmText\<close> stands for the rest of the object.
\<close>

datatype ParsedMessage = ParsedMessage (getContent: "bytes option") (pmText: bytes)

text \<open>
  A posted notification: the \<^verbatim>\<open>reason\<close> and the fields set on the duplicated
  template. \<open>kWhatDatagram\<close> carries arrival time, sender address and port only on the
  UDP path.
\<close>

datatype notification =
    kWhatError int32 bool int string
  | kWhatConnected int32
  | kWhatClientConnected int32 string nat string nat
  | kWhatData int32 ParsedMessage
  | kWhatDatagram int32 bytes "(int64 \<times> string \<times> nat) option"
  | kWhatBinaryData int32 byte bytes int64

datatype event =
    Post nat notification
  | Construct int32
  | Send int bytes
  | PipeWrite int
  | Close int
  | Lock
  | Unlock

record world =
  script :: "sysres list"
  clock :: "nat \<Rightarrow> int64"
  trace :: "event list"

type_synonym 'a io = "world \<Rightarrow> fault + ('a \<times> world)"

definition io_return :: "'a \<Rightarrow> 'a io" where
  "io_return x w = Inr (x, w)"

definition io_bind :: "'a io \<Rightarrow> ('a \<Rightarrow> 'b io) \<Rightarrow> 'b io" where
  "io_bind m f w = (case m w of Inl e \<Rightarrow> Inl e | Inr (x, w') \<Rightarrow> f x w')"

definition io_then :: "unit io \<Rightarrow> 'b io \<Rightarrow> 'b io" where
  "io_then m k = io_bind m (\<lambda>_. k)"

definition io_fail :: "fault \<Rightarrow> 'a io" where
  "io_fail e w = Inl e"

text \<open>\<^verbatim>\<open>CHECK(cond)\<close>: abort unless the condition holds.\<close>

definition CHECK :: "bool \<Rightarrow> unit io" where
  "CHECK b = (if b then io_return () else io_fail CheckFailed)"

definition emit :: "event \<Rightarrow> unit io" where
  "emit ev w = Inr ((), w\<lparr>trace := trace w @ [ev]\<rparr>)"

text \<open>One system call: the next result of the script.\<close>

definition syscall :: "sysres io" where
  "syscall w = (case script w of
      [] \<Rightarrow> Inl ScriptExhausted
    | r # rs \<Rightarrow> Inr (r, w\<lparr>script := rs\<rparr>))"

text \<open>
  \<^verbatim>\<open>do { n = call(...); } while (n < 0 && errno == EINTR);\<close> the call is issued again
  until its result is not an interruption.
\<close>

fun skipEINTR :: "sysres list \<Rightarrow> (sysres \<times> sysres list) option" where
  "skipEINTR [] = None"
| "skipEINTR (r # rs) =
     (if ret r < 0 \<and> errno r = EINTR then skipEINTR rs else Some (r, rs))"

definition syscall_retry :: "sysres io" where
  "syscall_retry w = (case skipEINTR (script w) of
      None \<Rightarrow> Inl ScriptExhausted
    | Some (r, rs) \<Rightarrow> Inr (r, w\<lparr>script := rs\<rparr>))"

text \<open>\<^verbatim>\<open>ALooper::GetNowUs()\<close>: the next reading of the microsecond clock.\<close>

definition GetNowUs :: "int64 io" where
  "GetNowUs w = Inr (clock w 0, w\<lparr>clock := (\<lambda>n. clock w (Suc n))\<rparr>)"

section \<open>Library helpers the source calls\<close>

text \<open>\<^verbatim>\<open>U16_AT(ptr)\<close>: \<^verbatim>\<open>ptr[0] << 8 | ptr[1]\<close>, read at an offset of a buffer.\<close>

definition U16_AT :: "bytes \<Rightarrow> nat \<Rightarrow> nat" where
  "U16_AT p off = unat ((push_bit 8 (ucast (p ! off)) OR ucast (p ! (off + 1))) :: 16 word)"

text \<open>
  \<^verbatim>\<open>AString::c_str()[i]\<close>: the buffer's bytes are followed by a terminating NUL;
  an index past it is out of range.
\<close>

definition c_str_at :: "bytes \<Rightarrow> nat \<Rightarrow> byte option" where
  "c_str_at buf i =
     (if i < length buf then Some (buf ! i)
      else if i = length buf then Some 0
      else None)"

text \<open>
  \<^verbatim>\<open>AString::erase(start, n)\<close> with \<^verbatim>\<open>start = 0\<close>:
  \<^verbatim>\<open>CHECK_LT(start, mSize); CHECK_LE(start + n, mSize);\<close> then the first \<open>n\<close>
  bytes are removed.
\<close>

definition erase0 :: "nat \<Rightarrow> bytes \<Rightarrow> fault + bytes" where
  "erase0 n buf =
     (if 0 < length buf \<and> n \<le> length buf then Inr (drop n buf) else Inl CheckFailed)"

text \<open>
  Reading \<open>n\<close> bytes through a \<^verbatim>\<open>const void *\<close>: the list is the memory readable
  from the pointer on. \<^verbatim>\<open>strlen\<close> needs a NUL within it.
\<close>

definition memRead :: "bytes \<Rightarrow> nat \<Rightarrow> fault + bytes" where
  "memRead data n = (if n \<le> length data then Inr (take n data) else Inl OutOfRange)"

definition cString :: "bytes \<Rightarrow> fault + bytes" where
  "cString data = (if 0 \<in> set data then Inr (takeWhile (\<lambda>b. b \<noteq> 0) data) else Inl OutOfRange)"

text \<open>\<^verbatim>\<open>StringPrintf("%d.%d.%d.%d", addr >> 24, (addr >> 16) & 0xff, ...)\<close>.\<close>

fun decimal :: "nat \<Rightarrow> string" where
  "decimal n =
     (if n < 10 then [char_of (48 + n)]
      else decimal (n div 10) @ [char_of (48 + n mod 10)])"

declare decimal.simps [simp del]

definition dottedQuad :: "32 word \<Rightarrow> string" where
  "dottedQuad addr =
     decimal (unat (drop_bit 24 addr)) @ ''.'' @
     decimal (unat (drop_bit 16 addr AND 0xff)) @ ''.'' @
     decimal (unat (drop_bit 8 addr AND 0xff)) @ ''.'' @
     decimal (unat (addr AND 0xff))"

section \<open>Session\<close>

datatype State = CONNECTING | CONNECTED | LISTENING_RTSP | LISTENING_TCP_DGRAMS | DATAGRAM

record Session =
  mSessionID :: int32
  mState :: State
  mIsRTSPConnection :: bool
  mSocket :: int
  mNotify :: nat
  mSawReceiveFailure :: bool
  mSawSendFailure :: bool
  mOutBuffer :: bytes
  mOutDatagrams :: "bytes list"
  mInBuffer :: bytes

definition notifyError :: "bool \<Rightarrow> int \<Rightarrow> string \<Rightarrow> Session \<Rightarrow> unit io" where
  "notifyError send err detail s =
     emit (Post (mNotify s) (kWhatError (mSessionID s) send err detail))"

text \<open>
  The constructor. A session created in state \<open>CONNECTED\<close> (an accepted child) asks
  for both socket addresses and posts \<open>kWhatClientConnected\<close>. The trace records the
  construction with the identifier the session is given; the destructor's
  \<^verbatim>\<open>close(mSocket)\<close> is recorded where the last reference to a session is dropped.
\<close>

definition newSession :: "int32 \<Rightarrow> State \<Rightarrow> int \<Rightarrow> nat \<Rightarrow> Session io" where
  "newSession sessionID state s notify =
     (let this = \<lparr> mSessionID = sessionID, mState = state, mIsRTSPConnection = False,
                   mSocket = s, mNotify = notify, mSawReceiveFailure = False,
                   mSawSendFailure = False, mOutBuffer = [], mOutDatagrams = [],
                   mInBuffer = [] \<rparr>
      in io_then (emit (Construct sessionID))
        (if state = CONNECTED then
           io_bind syscall (\<lambda>localRes.
           io_then (CHECK (ret localRes \<ge> 0))
          (io_bind syscall (\<lambda>remoteRes.
           io_then (CHECK (ret remoteRes \<ge> 0))
          (io_then (emit (Post notify
              (kWhatClientConnected sessionID
                 (dottedQuad (sin_addr (address localRes)))
                 (unat (sin_port (address localRes)))
                 (dottedQuad (sin_addr (address remoteRes)))
                 (unat (sin_port (address remoteRes))))))
          (io_return this)))))
         else io_return this))"

definition setIsRTSPConnection :: "bool \<Rightarrow> Session \<Rightarrow> Session" where
  "setIsRTSPConnection yesno s = s\<lparr>mIsRTSPConnection := yesno\<rparr>"

definition isRTSPServer :: "Session \<Rightarrow> bool" where
  "isRTSPServer s = (mState s = LISTENING_RTSP)"

definition isTCPDatagramServer :: "Session \<Rightarrow> bool" where
  "isTCPDatagramServer s = (mState s = LISTENING_TCP_DGRAMS)"

definition wantsToRead :: "Session \<Rightarrow> bool" where
  "wantsToRead s = (\<not> mSawReceiveFailure s \<and> mState s \<noteq> CONNECTING)"

definition wantsToWrite :: "Session \<Rightarrow> bool" where
  "wantsToWrite s =
     (\<not> mSawSendFailure s
      \<and> (mState s = CONNECTING
         \<or> (mState s = CONNECTED \<and> mOutBuffer s \<noteq> [])
         \<or> (mState s = DATAGRAM \<and> mOutDatagrams s \<noteq> [])))"

subsection \<open>Session::sendRequest\<close>

text \<open>
  \<open>data\<close> is the memory behind the pointer, \<open>sz\<close> the \<^verbatim>\<open>ssize_t size\<close> argument; a
  negative size stands for a NUL-terminated string on the stream path. The two prefix
  bytes are \<^verbatim>\<open>size >> 8\<close> and \<^verbatim>\<open>size & 0xff\<close> narrowed to \<^verbatim>\<open>uint8_t\<close>.
\<close>

definition Session_sendRequest :: "bytes \<Rightarrow> int \<Rightarrow> Session \<Rightarrow> fault + (int \<times> Session)" where
  "Session_sendRequest data sz s =
     (if \<not> (mState s = CONNECTED \<or> mState s = DATAGRAM) then Inl CheckFailed
      else if mState s = DATAGRAM then
        (if \<not> sz \<ge> 0 then Inl CheckFailed
         else case memRead data (nat sz) of
             Inl e \<Rightarrow> Inl e
           | Inr datagram \<Rightarrow> Inr (OK, s\<lparr>mOutDatagrams := mOutDatagrams s @ [datagram]\<rparr>))
      else if mState s = CONNECTED \<and> \<not> mIsRTSPConnection s \<and> \<not> sz \<le> 65535
        then Inl CheckFailed
      else
        (let s1 = (if mState s = CONNECTED \<and> \<not> mIsRTSPConnection s
                   then s\<lparr>mOutBuffer := mOutBuffer s @
                          [word_of_int (drop_bit 8 sz), word_of_int (sz AND 0xff)]\<rparr>
                   else s)
         in case (if sz \<ge> 0 then memRead data (nat sz) else cString data) of
             Inl e \<Rightarrow> Inl e
           | Inr payload \<Rightarrow> Inr (OK, s1\<lparr>mOutBuffer := mOutBuffer s1 @ payload\<rparr>)))"

subsection \<open>Session::readMore\<close>

definition logEvent :: "event \<Rightarrow> world \<Rightarrow> world" where
  "logEvent ev w = w\<lparr>trace := trace w @ [ev]\<rparr>"

text \<open>
  The datagram branch: \<^verbatim>\<open>recvfrom\<close> into a fresh 1500-byte buffer until a call
  fails; each datagram is posted with its arrival time and sender. The loop returns
  \<^verbatim>\<open>err\<close>.
\<close>

function recvfromLoop :: "Session \<Rightarrow> int io" where
  "recvfromLoop s w =
     (case syscall_retry w of
        Inl e \<Rightarrow> Inl e
      | Inr (r, w1) \<Rightarrow>
          if ret r < 0 then
            (if - errno r = OK then recvfromLoop s w1 else Inr (- errno r, w1))
          else if ret r = 0 then Inr (- ECONNRESET, w1)
          else if nat (ret r) > kMaxUDPSize then Inl CheckFailed
          else
            (case GetNowUs w1 of
               Inl e \<Rightarrow> Inl e
             | Inr (nowUs, w2) \<Rightarrow>
                 recvfromLoop s
                   (logEvent (Post (mNotify s)
                      (kWhatDatagram (mSessionID s) (take (nat (ret r)) (stored r))
                         (Some (nowUs, dottedQuad (sin_addr (address r)),
                                unat (sin_port (address r)))))) w2)))"
  by pat_completeness auto
termination
proof -
  have shorter: "length rs < length scr" if "skipEINTR scr = Some (r, rs)" for scr r rs
    using that by (induction scr) (auto split: if_splits)
  show ?thesis
    by (relation "measure (\<lambda>(s, w). length (script w))")
       (auto simp: GetNowUs_def logEvent_def syscall_retry_def
             split: option.splits dest!: shorter)
qed

declare recvfromLoop.simps [simp del]

text \<open>
  The length-prefix branch: \<^verbatim>\<open>while (mInBuffer.size() >= 2) { ... }\<close>.
\<close>

function lengthPrefixLoop :: "Session \<Rightarrow> Session io" where
  "lengthPrefixLoop s w =
     (if length (mInBuffer s) \<ge> 2 then
        (let packetSize = U16_AT (mInBuffer s) 0 in
         if length (mInBuffer s) < packetSize + 2 then Inr (s, w)
         else
           (let packet = take packetSize (drop 2 (mInBuffer s));
                w1 = logEvent (Post (mNotify s) (kWhatDatagram (mSessionID s) packet None)) w
            in case erase0 (packetSize + 2) (mInBuffer s) of
                 Inl e \<Rightarrow> Inl e
               | Inr rest \<Rightarrow> lengthPrefixLoop (s\<lparr>mInBuffer := rest\<rparr>) w1))
      else Inr (s, w))"
  by pat_completeness auto
termination
  by (relation "measure (\<lambda>(s, w). length (mInBuffer s))")
     (auto simp: erase0_def split: if_splits)

declare lengthPrefixLoop.simps [simp del]

text \<open>
  The literal \<^verbatim>\<open>"wfd_idr_request\r\n"\<close>, 17 bytes, and the adjustment of
  \<^verbatim>\<open>length\<close> that follows a parsed message. \<^verbatim>\<open>memcmp\<close> over 17 bytes of the
  NUL-terminated content succeeds exactly when the content has these 17 bytes in front.
\<close>

definition wfd_idr_request :: bytes where
  "wfd_idr_request =
     [0x77, 0x66, 0x64, 0x5f, 0x69, 0x64, 0x72, 0x5f,
      0x72, 0x65, 0x71, 0x75, 0x65, 0x73, 0x74, 0x0d, 0x0a]"

definition idrAdjust :: "bytes option \<Rightarrow> nat \<Rightarrow> bytes \<Rightarrow> fault + nat" where
  "idrAdjust content len buf =
     (case content of
        None \<Rightarrow> Inr len
      | Some c \<Rightarrow>
          if take 17 c \<noteq> wfd_idr_request then Inr len
          else if \<not> len \<ge> 19 then Inr len
          else (case c_str_at buf len of
                  None \<Rightarrow> Inl OutOfRange
                | Some b0 \<Rightarrow>
                    if b0 \<noteq> 0x0d then Inr len
                    else (case c_str_at buf (len + 1) of
                            None \<Rightarrow> Inl OutOfRange
                          | Some b1 \<Rightarrow> if b1 \<noteq> 0x0a then Inr len else Inr (len + 2))))"

text \<open>
  The RTSP branch: \<^verbatim>\<open>for (;;) { ... }\<close>. \<open>Parse\<close> is
  \<^verbatim>\<open>ParsedMessage::Parse(data, size, noMoreData, &length)\<close>, which is not among the
  sources: it yields nothing (\<^verbatim>\<open>NULL\<close>) or a message and the consumed length. The
  loop need not exit (a parser that consumes nothing repeats the same iteration), so
  not returning is the value \<open>None\<close>.
\<close>

type_synonym parser = "bytes \<Rightarrow> bool \<Rightarrow> (ParsedMessage \<times> nat) option"

partial_function (option) rtspLoop ::
    "parser \<Rightarrow> int \<Rightarrow> Session \<Rightarrow> world \<Rightarrow> (fault + (Session \<times> world)) option" where
  "rtspLoop Parse err s w =
     (if length (mInBuffer s) > 0 \<and> mInBuffer s ! 0 = 0x24 then
        (if length (mInBuffer s) < 4 then Some (Inr (s, w))
         else if length (mInBuffer s) < 4 + U16_AT (mInBuffer s) 2 then Some (Inr (s, w))
         else
           (case GetNowUs w of
              Inl e \<Rightarrow> Some (Inl e)
            | Inr (nowUs, w1) \<Rightarrow>
                (case erase0 (4 + U16_AT (mInBuffer s) 2) (mInBuffer s) of
                   Inl e \<Rightarrow> Some (Inl e)
                 | Inr rest \<Rightarrow>
                     rtspLoop Parse err (s\<lparr>mInBuffer := rest\<rparr>)
                       (logEvent (Post (mNotify s)
                          (kWhatBinaryData (mSessionID s) (mInBuffer s ! 1)
                             (take (U16_AT (mInBuffer s) 2) (drop 4 (mInBuffer s))) nowUs))
                          w1))))
      else
        (case Parse (mInBuffer s) (err \<noteq> OK) of
           None \<Rightarrow> Some (Inr (s, w))
         | Some (msg, len) \<Rightarrow>
             (case idrAdjust (getContent msg) len (mInBuffer s) of
                Inl e \<Rightarrow> Some (Inl e)
              | Inr len' \<Rightarrow>
                  (case erase0 len' (mInBuffer s) of
                     Inl e \<Rightarrow> Some (Inl e)
                   | Inr rest \<Rightarrow>
                       if err \<noteq> OK
                       then Some (Inr (s\<lparr>mInBuffer := rest\<rparr>,
                              logEvent (Post (mNotify s) (kWhatData (mSessionID s) msg)) w))
                       else rtspLoop Parse err (s\<lparr>mInBuffer := rest\<rparr>)
                              (logEvent (Post (mNotify s) (kWhatData (mSessionID s) msg)) w)))))"

declare rtspLoop.simps [code]

definition readMore :: "parser \<Rightarrow> Session \<Rightarrow> (int \<times> Session) io" where
  "readMore Parse s =
     (if mState s = DATAGRAM then
        io_bind (recvfromLoop s) (\<lambda>err0.
          let err = (if err0 = - EAGAIN then OK else err0) in
          if err \<noteq> OK then
            io_then (notifyError False err ''Recvfrom failed.'' s)
              (io_return (err, s\<lparr>mSawReceiveFailure := True\<rparr>))
          else io_return (err, s))
      else
        io_bind syscall_retry (\<lambda>r.
          let n = ret r;
              err = (if n > 0 then OK else if n < 0 then - errno r else - ECONNRESET);
              s1 = (if n > 0 then s\<lparr>mInBuffer := mInBuffer s @ take (nat n) (stored r)\<rparr> else s)
          in io_bind
               (if \<not> mIsRTSPConnection s1 then lengthPrefixLoop s1
                else (\<lambda>w. case rtspLoop Parse err s1 w of None \<Rightarrow> Inl Diverges | Some x \<Rightarrow> x))
               (\<lambda>s2.
                  if err \<noteq> OK then
                    io_then (notifyError False err ''Recv failed.'' s2)
                      (io_return (err, s2\<lparr>mSawReceiveFailure := True\<rparr>))
                  else io_return (err, s2))))"

subsection \<open>Session::writeMore\<close>

text \<open>
  The RTP egress stamp applied to the head datagram in place. \<^verbatim>\<open>data[0]\<close> is read
  first; \<^verbatim>\<open>data[1]\<close> only if \<^verbatim>\<open>data[0] == 0x80\<close> (\<^verbatim>\<open>&&\<close> evaluates its right
  operand only then); bytes 4 to 7 are read and written if both tests succeed. The
  product \<^verbatim>\<open>nowUs * 9ll\<close> and the quotient by \<^verbatim>\<open>100ll\<close> are 64-bit signed, the
  conversion to \<^verbatim>\<open>uint32_t\<close> keeps the low 32 bits.
\<close>

definition rtpTimeOf :: "int64 \<Rightarrow> 32 word" where
  "rtpTimeOf nowUs = ucast (word_of_int (sint (nowUs * 9) sdiv sint (100 :: int64)) :: int64)"

definition rtpStamp :: "bytes \<Rightarrow> bytes io" where
  "rtpStamp data w =
     (if \<not> 0 < length data then Inl OutOfRange
      else if data ! 0 = 0x80 then
        (if \<not> 1 < length data then Inl OutOfRange
         else if (data ! 1) AND 0x7f = 33 then
           (case GetNowUs w of
              Inl e \<Rightarrow> Inl e
            | Inr (nowUs, w1) \<Rightarrow>
                if \<not> 7 < length data then Inl OutOfRange
                else
                  (let rtpTime = rtpTimeOf nowUs in
                   Inr (data[4 := ucast (drop_bit 24 rtpTime),
                             5 := ucast (drop_bit 16 rtpTime AND 0xff),
                             6 := ucast (drop_bit 8 rtpTime AND 0xff),
                             7 := ucast (rtpTime AND 0xff)], w1)))
         else Inr (data, w))
      else Inr (data, w))"

text \<open>
  The datagram branch's \<^verbatim>\<open>do { ... } while (err == OK && !mOutDatagrams.empty());\<close>
  on the queue; it returns \<^verbatim>\<open>err\<close> and the queue that is left. A datagram that
  was stamped but not sent stays in the queue as stamped.
\<close>

function datagramLoop :: "int \<Rightarrow> bytes list \<Rightarrow> (int \<times> bytes list) io" where
  "datagramLoop fd q w =
     (case q of
        [] \<Rightarrow> Inl OutOfRange
      | datagram # rest \<Rightarrow>
          (case rtpStamp datagram w of
             Inl e \<Rightarrow> Inl e
           | Inr (data, w1) \<Rightarrow>
               (case syscall_retry (logEvent (Send fd data) w1) of
                  Inl e \<Rightarrow> Inl e
                | Inr (r, w2) \<Rightarrow>
                    if ret r > 0 then
                      (if rest \<noteq> [] then datagramLoop fd rest w2 else Inr ((OK, rest), w2))
                    else if ret r < 0 then
                      (if - errno r = OK then datagramLoop fd (data # rest) w2
                       else Inr ((- errno r, data # rest), w2))
                    else Inr ((- ECONNRESET, data # rest), w2))))"
  by pat_completeness auto
termination
proof -
  have shorter: "length rs < length scr" if "skipEINTR scr = Some (r, rs)" for scr r rs
    using that by (induction scr) (auto split: if_splits)
  show ?thesis
    by (relation "measure (\<lambda>(fd, q, w). length (script w))")
       (auto simp: rtpStamp_def GetNowUs_def logEvent_def syscall_retry_def Let_def
             split: if_splits option.splits dest!: shorter)
qed

declare datagramLoop.simps [simp del]

text \<open>
  The connect-failure path calls
  \<^verbatim>\<open>notifyError(kWhatError, -err, "Connection failed")\<close>, whose first parameter is
  \<^verbatim>\<open>bool send\<close>. The enumeration \<^verbatim>\<open>NotificationReason\<close> is declared in
  \<^verbatim>\<open>ANetworkSession.h\<close>, which is not among the sources, so the integer value of
  its enumerator \<^verbatim>\<open>kWhatError\<close> is the parameter \<open>whatError\<close> (0 if it is declared
  first). The conversion to \<^verbatim>\<open>bool\<close> yields true exactly for a non-zero value.
\<close>

definition writeMore :: "int \<Rightarrow> Session \<Rightarrow> (int \<times> Session) io" where
  "writeMore whatError s =
     (if mState s = DATAGRAM then
        io_then (CHECK (mOutDatagrams s \<noteq> []))
       (io_bind (datagramLoop (mSocket s) (mOutDatagrams s)) (\<lambda>(err0, q).
          let s1 = s\<lparr>mOutDatagrams := q\<rparr>;
              err = (if err0 = - EAGAIN then OK else err0)
          in if err \<noteq> OK then
               io_then (notifyError True err ''Send datagram failed.'' s1)
                 (io_return (err, s1\<lparr>mSawSendFailure := True\<rparr>))
             else io_return (err, s1)))
      else if mState s = CONNECTING then
        io_bind syscall (\<lambda>r.
        io_then (CHECK (ret r = 0))
       (io_then (CHECK (optlen r = 4))
       (if optval r \<noteq> 0 then
          io_then (notifyError (whatError \<noteq> 0) (- optval r) ''Connection failed'' s)
            (io_return (- optval r, s\<lparr>mSawSendFailure := True\<rparr>))
        else
          io_then (emit (Post (mNotify s) (kWhatConnected (mSessionID s))))
            (io_return (OK, s\<lparr>mState := CONNECTED\<rparr>)))))
      else
        io_then (CHECK (mState s = CONNECTED))
       (io_then (CHECK (mOutBuffer s \<noteq> []))
       (io_then (emit (Send (mSocket s) (mOutBuffer s)))
       (io_bind syscall_retry (\<lambda>r.
          let n = ret r;
              err = (if n > 0 then OK else if n < 0 then - errno r else - ECONNRESET)
          in case (if n > 0 then erase0 (nat n) (mOutBuffer s) else Inr (mOutBuffer s)) of
               Inl e \<Rightarrow> io_fail e
             | Inr rest \<Rightarrow>
                 (let s1 = s\<lparr>mOutBuffer := rest\<rparr> in
                  if err \<noteq> OK then
                    io_then (notifyError True err ''Send failed.'' s1)
                      (io_return (err, s1\<lparr>mSawSendFailure := True\<rparr>))
                  else io_return (err, s1)))))))"

section \<open>ANetworkSession\<close>

subsection \<open>The session map\<close>

text \<open>
  \<^verbatim>\<open>KeyedVector<int32_t, sp<Session> > mSessions\<close>: a vector of key-value pairs kept
  sorted by the signed key, with at most one entry per key. \<open>indexOfKey\<close> yields
  nothing where the library returns a negative index.
\<close>

type_synonym SessionMap = "(int32 \<times> Session) list"

fun indexOfKey :: "int32 \<Rightarrow> SessionMap \<Rightarrow> nat option" where
  "indexOfKey k [] = None"
| "indexOfKey k ((k', v) # kv) =
     (if k = k' then Some 0 else map_option Suc (indexOfKey k kv))"

definition valueAt :: "nat \<Rightarrow> SessionMap \<Rightarrow> Session" where
  "valueAt i kv = snd (kv ! i)"

definition removeItemsAt :: "nat \<Rightarrow> SessionMap \<Rightarrow> SessionMap" where
  "removeItemsAt i kv = take i kv @ drop (Suc i) kv"

fun insertSorted :: "int32 \<Rightarrow> Session \<Rightarrow> SessionMap \<Rightarrow> SessionMap" where
  "insertSorted k v [] = [(k, v)]"
| "insertSorted k v ((k', v') # kv) =
     (if sint k < sint k' then (k, v) # (k', v') # kv
      else (k', v') # insertSorted k v kv)"

text \<open>
  \<^verbatim>\<open>mSessions.add(key, session)\<close>: an entry with the same key is replaced (its
  session loses its last reference, so its destructor closes the socket); otherwise the
  pair is inserted at its place in the order.
\<close>

definition sessionsAdd :: "int32 \<Rightarrow> Session \<Rightarrow> SessionMap \<Rightarrow> SessionMap io" where
  "sessionsAdd k v kv =
     (case indexOfKey k kv of
        Some i \<Rightarrow> io_then (emit (Close (mSocket (valueAt i kv)))) (io_return (kv[i := (k, v)]))
      | None \<Rightarrow> io_return (insertSorted k v kv))"

subsection \<open>The engine\<close>

record ANetworkSession =
  mNextSessionID :: int32
  mSessions :: SessionMap
  mPipeFd :: "int \<times> int"
  mThread :: bool

text \<open>
  The constructor: \<^verbatim>\<open>mNextSessionID(1)\<close>, both pipe ends \<^verbatim>\<open>-1\<close>, no thread
  (\<open>mThread\<close> tells whether the thread handle is non-\<^verbatim>\<open>NULL\<close>).
\<close>

definition newANetworkSession :: ANetworkSession where
  "newANetworkSession =
     \<lparr> mNextSessionID = 1, mSessions = [], mPipeFd = (- 1, - 1), mThread = False \<rparr>"

datatype Mode =
    kModeCreateUDPSession
  | kModeCreateTCPDatagramSessionPassive
  | kModeCreateTCPDatagramSessionActive
  | kModeCreateRTSPServer
  | kModeCreateRTSPClient

text \<open>\<^verbatim>\<open>interrupt()\<close>: one byte written to the pipe's write end; a failure is only logged.\<close>

definition interrupt :: "ANetworkSession \<Rightarrow> unit io" where
  "interrupt this =
     io_then (emit (PipeWrite (snd (mPipeFd this))))
       (io_bind syscall_retry (\<lambda>n. io_return ()))"

text \<open>
  \<^verbatim>\<open>start()\<close> creates the pipe and runs the thread (the script answers
  \<^verbatim>\<open>pipe\<close> and \<^verbatim>\<open>Thread::run\<close>); \<^verbatim>\<open>stop()\<close> asks the thread to exit,
  wakes it, waits for it and closes the pipe.
\<close>

definition start :: "ANetworkSession \<Rightarrow> (int \<times> ANetworkSession) io" where
  "start this =
     (if mThread this then io_return (INVALID_OPERATION, this)
      else
        io_bind syscall (\<lambda>res.
          if ret res \<noteq> 0 then io_return (- errno res, this\<lparr>mPipeFd := (- 1, - 1)\<rparr>)
          else
            io_bind syscall (\<lambda>run.
              if ret run \<noteq> OK then
                io_then (emit (Close (fst (fds res))))
               (io_then (emit (Close (snd (fds res))))
                 (io_return (ret run, this\<lparr>mPipeFd := (- 1, - 1), mThread := False\<rparr>)))
              else io_return (OK, this\<lparr>mPipeFd := fds res, mThread := True\<rparr>))))"

definition stop :: "ANetworkSession \<Rightarrow> (int \<times> ANetworkSession) io" where
  "stop this =
     (if \<not> mThread this then io_return (INVALID_OPERATION, this)
      else
        io_then (interrupt this)
       (io_then (emit (Close (fst (mPipeFd this))))
       (io_then (emit (Close (snd (mPipeFd this))))
         (io_return (OK, this\<lparr>mPipeFd := (- 1, - 1), mThread := False\<rparr>)))))"

definition destroySession :: "int32 \<Rightarrow> ANetworkSession \<Rightarrow> (int \<times> ANetworkSession) io" where
  "destroySession sessionID this =
     io_then (emit Lock)
       (case indexOfKey sessionID (mSessions this) of
          None \<Rightarrow> io_then (emit Unlock) (io_return (- ENOENT, this))
        | Some index \<Rightarrow>
            (let this' = this\<lparr>mSessions := removeItemsAt index (mSessions this)\<rparr> in
             io_then (emit (Close (mSocket (valueAt index (mSessions this)))))
            (io_then (interrupt this')
            (io_then (emit Unlock)
            (io_return (OK, this'))))))"

text \<open>
  \<^verbatim>\<open>MakeSocketNonBlocking(s)\<close>: \<^verbatim>\<open>fcntl(F_GETFL)\<close> (a failure is replaced by
  flags 0), then \<^verbatim>\<open>fcntl(F_SETFL)\<close>.
\<close>

definition MakeSocketNonBlocking :: "int \<Rightarrow> int io" where
  "MakeSocketNonBlocking s =
     io_bind syscall (\<lambda>getfl.
     io_bind syscall (\<lambda>setfl.
     io_return (if ret setfl < 0 then - errno setfl else OK)))"

text \<open>
  The parts of \<^verbatim>\<open>createClientOrServer\<close> between the creation of the socket and the
  creation of the session. Each yields \<open>Some err\<close> where the source jumps to
  \<^verbatim>\<open>bail2\<close> with that \<^verbatim>\<open>err\<close>, and \<open>None\<close> where it goes on. The result of
  \<^verbatim>\<open>gethostbyname\<close> carries \<^verbatim>\<open>h_errno\<close> in its \<open>errno\<close> field.
\<close>

definition setSocketOptions :: "Mode \<Rightarrow> int option io" where
  "setSocketOptions mode =
     io_bind
       (if mode = kModeCreateRTSPServer \<or> mode = kModeCreateTCPDatagramSessionPassive then
          io_bind syscall (\<lambda>res.
            io_return (if ret res < 0 then Some (- errno res) else None))
        else io_return None)
       (\<lambda>bail.
          if bail \<noteq> None then io_return bail
          else if mode = kModeCreateUDPSession then
            io_bind syscall (\<lambda>res.
              if ret res < 0 then io_return (Some (- errno res))
              else io_bind syscall (\<lambda>res2.
                io_return (if ret res2 < 0 then Some (- errno res2) else None)))
          else io_return None)"

definition connectOrBind :: "Mode \<Rightarrow> string option \<Rightarrow> int option io" where
  "connectOrBind mode remoteHost =
     (if mode = kModeCreateRTSPClient \<or> mode = kModeCreateTCPDatagramSessionActive then
        io_bind syscall (\<lambda>ent.
          if h_addr ent = None then io_return (Some (- errno ent))
          else
            io_bind syscall (\<lambda>res.
            io_then (CHECK (ret res < 0))
              (io_return
                (if (if errno res = EINPROGRESS then 0 else ret res) < 0
                 then Some (- errno res) else None))))
      else
        io_bind syscall (\<lambda>res.
          if ret res = 0 then
            (if mode = kModeCreateRTSPServer \<or> mode = kModeCreateTCPDatagramSessionPassive then
               io_bind syscall (\<lambda>res2.
                 io_return (if ret res2 < 0 then Some (- errno res2) else None))
             else
               io_then (CHECK (mode = kModeCreateUDPSession))
                 (if remoteHost \<noteq> None then
                    io_bind syscall (\<lambda>ent.
                      if h_addr ent = None then io_return (Some (- errno ent))
                      else io_bind syscall (\<lambda>res2.
                        io_return (if ret res2 < 0 then Some (- errno res2) else None)))
                  else io_return None))
          else io_return (if ret res < 0 then Some (- errno res) else None)))"

definition stateOfMode :: "Mode \<Rightarrow> State" where
  "stateOfMode mode =
     (case mode of
        kModeCreateRTSPClient \<Rightarrow> CONNECTING
      | kModeCreateTCPDatagramSessionActive \<Rightarrow> CONNECTING
      | kModeCreateTCPDatagramSessionPassive \<Rightarrow> LISTENING_TCP_DGRAMS
      | kModeCreateRTSPServer \<Rightarrow> LISTENING_RTSP
      | kModeCreateUDPSession \<Rightarrow> DATAGRAM)"

text \<open>
  \<^verbatim>\<open>createClientOrServer\<close> returns \<^verbatim>\<open>err\<close> and the value left in
  \<^verbatim>\<open>*sessionID\<close> (0 unless a session was created).
\<close>

definition createClientOrServer ::
    "Mode \<Rightarrow> 32 word option \<Rightarrow> nat \<Rightarrow> string option \<Rightarrow> nat \<Rightarrow> nat \<Rightarrow> ANetworkSession
     \<Rightarrow> (int \<times> int32 \<times> ANetworkSession) io" where
  "createClientOrServer mode localAddr port remoteHost remotePort notify this =
     io_then (emit Lock)
    (io_bind syscall (\<lambda>sock.
       if ret sock < 0 then
         io_then (emit Unlock) (io_return (- errno sock, 0, this))
       else
         io_bind
           (io_bind (setSocketOptions mode) (\<lambda>bail.
              if bail \<noteq> None then io_return bail
              else io_bind (MakeSocketNonBlocking (ret sock)) (\<lambda>err.
                if err \<noteq> OK then io_return (Some err)
                else connectOrBind mode remoteHost)))
           (\<lambda>bail.
              case bail of
                Some err \<Rightarrow>
                  io_then (emit (Close (ret sock)))
                 (io_then (emit Unlock)
                   (io_return (err, 0, this)))
              | None \<Rightarrow>
                  io_bind (newSession (mNextSessionID this) (stateOfMode mode) (ret sock) notify)
                    (\<lambda>session0.
                  let session =
                        (if mode = kModeCreateTCPDatagramSessionActive
                           then setIsRTSPConnection False session0
                         else if mode = kModeCreateRTSPClient
                           then setIsRTSPConnection True session0
                         else session0)
                  in io_bind (sessionsAdd (mSessionID session) session (mSessions this))
                    (\<lambda>sessions.
                  let this' = this\<lparr>mNextSessionID := mNextSessionID this + 1,
                                    mSessions := sessions\<rparr>
                  in io_then (interrupt this')
                    (io_then (emit Unlock)
                    (io_return (OK, mSessionID session, this'))))))))"

definition connectUDPSession ::
    "int32 \<Rightarrow> string \<Rightarrow> nat \<Rightarrow> ANetworkSession \<Rightarrow> (int \<times> ANetworkSession) io" where
  "connectUDPSession sessionID remoteHost remotePort this =
     io_then (emit Lock)
       (case indexOfKey sessionID (mSessions this) of
          None \<Rightarrow> io_then (emit Unlock) (io_return (- ENOENT, this))
        | Some index \<Rightarrow>
            io_bind syscall (\<lambda>ent.
              if h_addr ent = None then
                io_then (emit Unlock) (io_return (- errno ent, this))
              else
                io_bind syscall (\<lambda>res.
                  io_then (emit Unlock)
                    (io_return (if ret res < 0 then - errno res else OK, this)))))"

definition sendRequest ::
    "int32 \<Rightarrow> bytes \<Rightarrow> int \<Rightarrow> ANetworkSession \<Rightarrow> (int \<times> ANetworkSession) io" where
  "sendRequest sessionID data sz this =
     io_then (emit Lock)
       (case indexOfKey sessionID (mSessions this) of
          None \<Rightarrow> io_then (emit Unlock) (io_return (- ENOENT, this))
        | Some index \<Rightarrow>
            (case Session_sendRequest data sz (valueAt index (mSessions this)) of
               Inl e \<Rightarrow> io_fail e
             | Inr (err, session) \<Rightarrow>
                 (let this' = this\<lparr>mSessions :=
                                (mSessions this)[index := (fst (mSessions this ! index), session)]\<rparr>
                  in io_then (interrupt this')
                    (io_then (emit Unlock)
                    (io_return (err, this'))))))"

subsection \<open>threadLoop\<close>

text \<open>
  The read event of a listening session: \<^verbatim>\<open>accept\<close>, make the client socket
  non-blocking, and construct the child with \<^verbatim>\<open>mNextSessionID++\<close>. The result is
  the child to stage in \<^verbatim>\<open>sessionsToAdd\<close> (if any) and the counter.
\<close>

definition acceptClient :: "Session \<Rightarrow> int32 \<Rightarrow> (Session option \<times> int32) io" where
  "acceptClient session nextID =
     io_bind syscall (\<lambda>acc.
       if ret acc \<ge> 0 then
         io_bind (MakeSocketNonBlocking (ret acc)) (\<lambda>err.
           if err \<noteq> OK then
             io_then (emit (Close (ret acc))) (io_return (None, nextID))
           else
             io_bind (newSession nextID CONNECTED (ret acc) (mNotify session)) (\<lambda>clientSession.
               io_return (Some (setIsRTSPConnection (isRTSPServer session) clientSession),
                          nextID + 1)))
       else io_return (None, nextID))"

text \<open>
  The dispatch loop
  \<^verbatim>\<open>for (size_t i = mSessions.size(); res > 0 && i-- > 0;)\<close>: the first argument
  counts the indices still to visit, \<open>rs\<close> and \<open>ws\<close> are the ready sets
  \<^verbatim>\<open>select\<close> left, \<open>toAdd\<close> is \<^verbatim>\<open>sessionsToAdd\<close>.
\<close>

fun dispatch ::
    "nat \<Rightarrow> parser \<Rightarrow> int \<Rightarrow> int list \<Rightarrow> int list \<Rightarrow> int \<Rightarrow> Session list \<Rightarrow> ANetworkSession
     \<Rightarrow> (Session list \<times> ANetworkSession) io" where
  "dispatch 0 Parse whatError rs ws res toAdd this w = Inr ((toAdd, this), w)"
| "dispatch (Suc i) Parse whatError rs ws res toAdd this w =
     (if \<not> res > 0 then Inr ((toAdd, this), w)
      else
        (let session = valueAt i (mSessions this); s = mSocket session in
         if s < 0 then dispatch i Parse whatError rs ws res toAdd this w
         else
           (let res' = (if s \<in> set rs \<or> s \<in> set ws then res - 1 else res) in
            case
              (if s \<in> set rs then
                 (if isRTSPServer session \<or> isTCPDatagramServer session then
                    io_bind (acceptClient session (mNextSessionID this)) (\<lambda>(child, nextID).
                      io_return (session, nextID,
                        (case child of None \<Rightarrow> toAdd | Some c \<Rightarrow> toAdd @ [c])))
                  else
                    io_bind (readMore Parse session) (\<lambda>(err, session').
                      io_return (session', mNextSessionID this, toAdd)))
               else io_return (session, mNextSessionID this, toAdd)) w
            of
              Inl e \<Rightarrow> Inl e
            | Inr ((session1, nextID, toAdd'), w1) \<Rightarrow>
                (case
                   (if s \<in> set ws then
                      io_bind (writeMore whatError session1) (\<lambda>(err, session'). io_return session')
                    else io_return session1) w1
                 of
                   Inl e \<Rightarrow> Inl e
                 | Inr (session2, w2) \<Rightarrow>
                     dispatch i Parse whatError rs ws res' toAdd'
                       (this\<lparr>mNextSessionID := nextID,
                             mSessions := (mSessions this)[i := (fst (mSessions this ! i), session2)]\<rparr>)
                       w2))))"

declare dispatch.simps [simp del]

text \<open>\<^verbatim>\<open>while (!sessionsToAdd.empty()) { ... mSessions.add(...) ... }\<close>\<close>

fun addSessions :: "Session list \<Rightarrow> SessionMap \<Rightarrow> SessionMap io" where
  "addSessions [] kv w = Inr (kv, w)"
| "addSessions (session # rest) kv w =
     (case sessionsAdd (mSessionID session) session kv w of
        Inl e \<Rightarrow> Inl e
      | Inr (kv', w') \<Rightarrow> addSessions rest kv' w')"

text \<open>
  One pass of \<^verbatim>\<open>threadLoop()\<close>, in its two critical sections. The first builds
  the descriptor sets under the lock, releases it and waits in \<^verbatim>\<open>select\<close>
  (\<^verbatim>\<open>select\<close> reports only descriptors that were put into the sets it was given),
  then drains the pipe; it yields nothing where the pass returns early, else the count
  and the ready sets. The second takes the lock again, dispatches and adds the staged
  children. Control-API calls of other threads may run between the two.
\<close>

definition threadLoopSelect :: "ANetworkSession \<Rightarrow> (int \<times> int list \<times> int list) option io" where
  "threadLoopSelect this =
     io_then (emit Lock)
    (let rs = fst (mPipeFd this) #
                [mSocket s. (k, s) \<leftarrow> mSessions this, mSocket s \<ge> 0, wantsToRead s];
         ws = [mSocket s. (k, s) \<leftarrow> mSessions this, mSocket s \<ge> 0, wantsToWrite s]
     in io_then (emit Unlock)
       (io_bind syscall (\<lambda>sel.
          if ret sel = 0 then io_return None
          else if ret sel < 0 then io_return None
          else
            (let rs' = filter (\<lambda>fd. fd \<in> set rs) (readyR sel);
                 ws' = filter (\<lambda>fd. fd \<in> set ws) (readyW sel)
             in io_bind
                  (if fst (mPipeFd this) \<in> set rs'
                   then io_bind syscall_retry (\<lambda>n. io_return (ret sel - 1))
                   else io_return (ret sel))
                  (\<lambda>res. io_return (Some (res, rs', ws')))))))"

definition threadLoopDispatch ::
    "parser \<Rightarrow> int \<Rightarrow> int \<times> int list \<times> int list \<Rightarrow> ANetworkSession \<Rightarrow> ANetworkSession io" where
  "threadLoopDispatch Parse whatError ready this =
     (case ready of (res, rs', ws') \<Rightarrow>
        io_then (emit Lock)
       (io_bind (dispatch (length (mSessions this)) Parse whatError rs' ws' res [] this)
          (\<lambda>(toAdd, this1).
        io_bind (addSessions toAdd (mSessions this1)) (\<lambda>sessions.
        io_then (emit Unlock)
          (io_return (this1\<lparr>mSessions := sessions\<rparr>))))))"

definition threadLoop :: "parser \<Rightarrow> int \<Rightarrow> ANetworkSession \<Rightarrow> ANetworkSession io" where
  "threadLoop Parse whatError this =
     io_bind (threadLoopSelect this) (\<lambda>ready.
       case ready of
         None \<Rightarrow> io_return this
       | Some r \<Rightarrow> threadLoopDispatch Parse whatError r this)"

section \<open>Specification-side definitions and drivers\<close>

text \<open>
  The wire format of the length-prefixed framing as the specification states it
  (\<open>[size >> 8, size & 0xff, payload...]\<close>), the decoding of a byte stream into frames
  as the specification states it (while at least 2 bytes are buffered, peek the length;
  if at least length + 2 bytes are buffered, extract the payload and advance; else wait),
  a sequence of \<open>send_request\<close> calls with explicit sizes, a sequence of read passes,
  and the result of a \<^verbatim>\<open>recv\<close> that delivers a chunk of bytes.
\<close>

definition lengthPrefixed :: "bytes \<Rightarrow> bytes" where
  "lengthPrefixed p = [of_nat (drop_bit 8 (length p)), of_nat (length p AND 0xff)] @ p"

function decodeFrames :: "bytes \<Rightarrow> bytes list \<times> bytes" where
  "decodeFrames buf =
     (if length buf \<ge> 2 \<and> length buf \<ge> U16_AT buf 0 + 2
      then (case decodeFrames (drop (U16_AT buf 0 + 2) buf) of
              (ps, rest) \<Rightarrow> (take (U16_AT buf 0) (drop 2 buf) # ps, rest))
      else ([], buf))"
  by pat_completeness auto
termination
  by (relation "measure length") auto

declare decodeFrames.simps [simp del]

fun readMores :: "parser \<Rightarrow> nat \<Rightarrow> Session \<Rightarrow> Session io" where
  "readMores Parse 0 s w = Inr (s, w)"
| "readMores Parse (Suc n) s w =
     (case readMore Parse s w of
        Inl e \<Rightarrow> Inl e
      | Inr ((err, s'), w') \<Rightarrow> readMores Parse n s' w')"

definition received :: "bytes \<Rightarrow> sysres" where
  "received c = \<lparr> ret = int (length c), errno = 0, stored = c,
                  address = \<lparr> sin_addr = 0, sin_port = 0 \<rparr>, optval = 0, optlen = 0,
                  readyR = [], readyW = [], h_addr = None, fds = (0, 0) \<rparr>"

fun sendRequests :: "bytes list \<Rightarrow> Session \<Rightarrow> fault + Session" where
  "sendRequests [] s = Inr s"
| "sendRequests (p # ps) s =
     (case Session_sendRequest p (int (length p)) s of
        Inl e \<Rightarrow> Inl e
      | Inr (err, s') \<Rightarrow> sendRequests ps s')"


definition sampleSession :: "State \<Rightarrow> bool \<Rightarrow> Session" where
  "sampleSession st rtsp =
     \<lparr> mSessionID = 1, mState = st, mIsRTSPConnection = rtsp, mSocket = 7, mNotify = 0,
       mSawReceiveFailure = False, mSawSendFailure = False, mOutBuffer = [],
       mOutDatagrams = [], mInBuffer = [] \<rparr>"

definition sampleWorld :: "sysres list \<Rightarrow> world" where
  "sampleWorld scr = \<lparr> script = scr, clock = (\<lambda>n. 1000000 + of_nat n), trace = [] \<rparr>"



definition isRTP33 :: "bytes \<Rightarrow> bool" where
  "isRTP33 d = (2 \<le> length d \<and> d ! 0 = 0x80 \<and> (d ! 1) AND 0x7f = 33)"


definition stampInRange :: "bytes \<Rightarrow> bool" where
  "stampInRange d =
     (1 \<le> length d \<and> (d ! 0 = 0x80 \<longrightarrow> 2 \<le> length d) \<and> (isRTP33 d \<longrightarrow> 8 \<le> length d))"


definition sysResult :: "int \<Rightarrow> int \<Rightarrow> sysres" where
  "sysResult n e = \<lparr> ret = n, errno = e, stored = [],
                    address = \<lparr> sin_addr = 0, sin_port = 0 \<rparr>, optval = 0, optlen = 0,
                    readyR = [], readyW = [], h_addr = None, fds = (0, 0) \<rparr>"


definition sockoptResult :: "int \<Rightarrow> sysres" where
  "sockoptResult err = (sysResult 0 0)\<lparr>optval := err, optlen := 4\<rparr>"

function binaryFrames :: "bytes \<Rightarrow> (byte \<times> bytes) list \<times> bytes" where
  "binaryFrames buf =
     (if length buf \<ge> 4 \<and> buf ! 0 = 0x24 \<and> length buf \<ge> 4 + U16_AT buf 2
      then (case binaryFrames (drop (4 + U16_AT buf 2) buf) of
              (fs, rest) \<Rightarrow> ((buf ! 1, take (U16_AT buf 2) (drop 4 buf)) # fs, rest))
      else ([], buf))"
  by pat_completeness auto

termination
  by (relation "measure length") auto

declare binaryFrames.simps [simp del]

definition startsBinary :: "bytes \<Rightarrow> bool" where
  "startsBinary buf = (length buf > 0 \<and> buf ! 0 = 0x24)"

definition parserInRange :: "parser \<Rightarrow> bool" where
  "parserInRange Parse =
     (\<forall>buf noMoreData msg len. Parse buf noMoreData = Some (msg, len) \<longrightarrow> buf \<noteq> [] \<and> len \<le> length buf)"

text \<open>
  A message with content is a start line and headers, the blank line that ends them, and
  the content: what the parser reports as consumed covers the content and at least the
  two bytes of the blank line before it.
\<close>

definition parserCoversContent :: "parser \<Rightarrow> bool" where
  "parserCoversContent Parse =
     (\<forall>buf noMoreData msg len c.
        Parse buf noMoreData = Some (msg, len) \<and> getContent msg = Some c \<longrightarrow> length c + 2 \<le> len)"

definition errorPassNotifications :: "parser \<Rightarrow> Session \<Rightarrow> (nat \<Rightarrow> int64) \<Rightarrow> notification list" where
  "errorPassNotifications Parse s clk =
     (if \<not> mIsRTSPConnection s then
        map (\<lambda>p. kWhatDatagram (mSessionID s) p None) (fst (decodeFrames (mInBuffer s)))
      else
        (case binaryFrames (mInBuffer s) of
           (fs, rest) \<Rightarrow>
             map (\<lambda>(k, ch, p). kWhatBinaryData (mSessionID s) ch p (clk k)) (enumerate 0 fs) @
             (if startsBinary rest then []
              else (case Parse rest True of
                      None \<Rightarrow> []
                    | Some (msg, len) \<Rightarrow> [kWhatData (mSessionID s) msg]))))"

definition rtspPassNotifications :: "parser \<Rightarrow> int32 \<Rightarrow> (nat \<Rightarrow> int64) \<Rightarrow> bytes \<Rightarrow> notification list" where
  "rtspPassNotifications Parse sid clk buf =
        (case binaryFrames buf of
           (fs, rest) \<Rightarrow>
             map (\<lambda>(k, ch, p). kWhatBinaryData sid ch p (clk k)) (enumerate 0 fs) @
             (if startsBinary rest then []
              else (case Parse rest True of
                      None \<Rightarrow> []
                    | Some (msg, len) \<Rightarrow> [kWhatData sid msg])))"

definition recvError :: "sysres \<Rightarrow> int" where
  "recvError r = (if ret r < 0 then - errno r else - ECONNRESET)"

definition sampleParse :: parser where
  "sampleParse buf noMoreData =
     (if length buf \<ge> 21
      then Some (ParsedMessage (Some (take 17 (drop 4 buf))) (take 4 buf), 21)
      else None)"

definition sampleRtspBuffer :: bytes where
  "sampleRtspBuffer =
     [0x24, 0, 0, 4, 0x41, 0x42, 0x43, 0x44] @ [1, 2, 3, 4] @ wfd_idr_request @ [0x0d, 0x0a, 0x24]"

text \<open>
  The order of a \<^verbatim>\<open>KeyedVector\<close>: keys strictly increasing as signed integers, so
  one entry per key.
\<close>

definition sessionsSorted :: "SessionMap \<Rightarrow> bool" where
  "sessionsSorted kv = sorted_wrt (\<lambda>a b. sint (fst a) < sint (fst b)) kv"

text \<open>
  The IDs issued so far, in the order of issue: the arguments of the \<open>Session\<close>
  constructor calls recorded in the trace. \<open>sameIdentity\<close> relates a session to a
  later state of itself; \<open>quiet\<close> relates two worlds between which no session was
  constructed.
\<close>

fun constructedIDs :: "event list \<Rightarrow> int32 list" where
  "constructedIDs [] = []"
| "constructedIDs (Construct sid # tr) = sid # constructedIDs tr"
| "constructedIDs (ev # tr) = constructedIDs tr"

definition sameIdentity :: "Session \<Rightarrow> Session \<Rightarrow> bool" where
  "sameIdentity s s' =
     (mSessionID s' = mSessionID s \<and> mSocket s' = mSocket s \<and> mNotify s' = mNotify s)"

definition quiet :: "world \<Rightarrow> world \<Rightarrow> bool" where
  "quiet w w' = (\<exists>tr. trace w' = trace w @ tr \<and> constructedIDs tr = [])"

text \<open>
  What the engine maintains: the map is ordered, every session is filed under its own
  ID, and the counter is one more than the number of IDs issued, which are
  \<open>1, 2, 3, \<dots>\<close> as 32-bit integers.
\<close>

definition engineInv :: "ANetworkSession \<Rightarrow> bool" where
  "engineInv e =
     (sessionsSorted (mSessions e) \<and> (\<forall>(k, s)\<in>set (mSessions e). mSessionID s = k))"

definition counterInv :: "int32 \<Rightarrow> world \<Rightarrow> bool" where
  "counterInv c w =
     (c = 1 + of_nat (length (constructedIDs (trace w)))
      \<and> constructedIDs (trace w) = map of_nat [1..<Suc (length (constructedIDs (trace w)))])"

text \<open>A stretch of the trace in which sockets are closed and nothing else happens.\<close>

definition closesOnly :: "event list \<Rightarrow> bool" where
  "closesOnly tr = (\<forall>ev\<in>set tr. \<exists>fd. ev = Close fd)"

text \<open>
  The invariant of the engine in its world: \<open>engineInv\<close>, \<open>counterInv\<close>, and every key
  of the map is an ID that was issued. \<open>extends\<close> relates a world to a later one;
  \<open>staged\<close> says that the children waiting in \<^verbatim>\<open>sessionsToAdd\<close> carry issued IDs.
\<close>

definition engineOK :: "ANetworkSession \<Rightarrow> world \<Rightarrow> bool" where
  "engineOK e w =
     (engineInv e \<and> counterInv (mNextSessionID e) w
      \<and> fst ` set (mSessions e) \<subseteq> set (constructedIDs (trace w)))"

definition extends :: "world \<Rightarrow> world \<Rightarrow> bool" where
  "extends w w' = (\<exists>tr. trace w' = trace w @ tr)"

definition staged :: "Session list \<Rightarrow> world \<Rightarrow> bool" where
  "staged toAdd w = (mSessionID ` set toAdd \<subseteq> set (constructedIDs (trace w)))"

text \<open>
  A started engine that holds one datagram session, and the result of a successful
  \<^verbatim>\<open>gethostbyname\<close>.
\<close>

definition sampleEngine :: ANetworkSession where
  "sampleEngine =
     \<lparr> mNextSessionID = 2, mSessions = [(1, sampleSession DATAGRAM False)],
       mPipeFd = (3, 4), mThread = True \<rparr>"

definition resolved :: "32 word \<Rightarrow> sysres" where
  "resolved a = (sysResult 0 0)\<lparr>h_addr := Some a\<rparr>"

text \<open>
  The life of an engine as its clients and its thread drive it: a sequence of calls of
  the control API and of the two critical sections of \<^verbatim>\<open>threadLoop\<close>, in any
  interleaving. Between the two sections the thread holds the ready sets
  \<^verbatim>\<open>select\<close> gave it.
\<close>

datatype call =
    CallStart
  | CallStop
  | CallCreate Mode "32 word option" nat "string option" nat nat
  | CallDestroySession int32
  | CallConnectUDPSession int32 string nat
  | CallSendRequest int32 bytes int
  | CallThreadSelect
  | CallThreadDispatch

type_synonym engine = "ANetworkSession \<times> (int \<times> int list \<times> int list) option"

fun step :: "parser \<Rightarrow> int \<Rightarrow> call \<Rightarrow> engine \<Rightarrow> engine io" where
  "step Parse whatError CallStart (this, ready) =
     io_bind (start this) (\<lambda>(err, this'). io_return (this', ready))"
| "step Parse whatError CallStop (this, ready) =
     io_bind (stop this) (\<lambda>(err, this'). io_return (this', ready))"
| "step Parse whatError (CallCreate mode localAddr port remoteHost remotePort notify) (this, ready) =
     io_bind (createClientOrServer mode localAddr port remoteHost remotePort notify this)
       (\<lambda>(err, sessionID, this'). io_return (this', ready))"
| "step Parse whatError (CallDestroySession sessionID) (this, ready) =
     io_bind (destroySession sessionID this) (\<lambda>(err, this'). io_return (this', ready))"
| "step Parse whatError (CallConnectUDPSession sessionID remoteHost remotePort) (this, ready) =
     io_bind (connectUDPSession sessionID remoteHost remotePort this)
       (\<lambda>(err, this'). io_return (this', ready))"
| "step Parse whatError (CallSendRequest sessionID data sz) (this, ready) =
     io_bind (sendRequest sessionID data sz this) (\<lambda>(err, this'). io_return (this', ready))"
| "step Parse whatError CallThreadSelect (this, ready) =
     io_bind (threadLoopSelect this) (\<lambda>ready'. io_return (this, ready'))"
| "step Parse whatError CallThreadDispatch (this, ready) =
     (case ready of
        None \<Rightarrow> io_return (this, None)
      | Some r \<Rightarrow>
          io_bind (threadLoopDispatch Parse whatError r this) (\<lambda>this'. io_return (this', None)))"

fun run :: "parser \<Rightarrow> int \<Rightarrow> call list \<Rightarrow> engine \<Rightarrow> engine io" where
  "run Parse whatError [] e w = Inr (e, w)"
| "run Parse whatError (c # cs) e w =
     (case step Parse whatError c e w of
        Inl f \<Rightarrow> Inl f
      | Inr (e', w') \<Rightarrow> run Parse whatError cs e' w')"

text \<open>The session IDs issued up to a moment, in creation order.\<close>

definition issuedIDs :: "world \<Rightarrow> int32 list" where
  "issuedIDs w = constructedIDs (trace w)"

text \<open>
  Sample inputs: the results of \<^verbatim>\<open>select\<close> and \<^verbatim>\<open>pipe\<close>; a client that starts
  the engine and creates an RTSP server, after which the thread runs one pass in which
  the listening socket is ready and a connection is accepted; the listener and the
  accepted child as that run leaves them.
\<close>

definition selected :: "int \<Rightarrow> int list \<Rightarrow> int list \<Rightarrow> sysres" where
  "selected n rs ws = (sysResult n 0)\<lparr>readyR := rs, readyW := ws\<rparr>"

definition piped :: "int \<Rightarrow> int \<Rightarrow> sysres" where
  "piped r w = (sysResult 0 0)\<lparr>fds := (r, w)\<rparr>"

definition sampleCalls :: "call list" where
  "sampleCalls =
     [CallStart, CallCreate kModeCreateRTSPServer None 7236 None 0 5,
      CallThreadSelect, CallThreadDispatch]"

definition sampleScript :: "sysres list" where
  "sampleScript =
     [piped 3 4, sysResult 0 0,
      sysResult 8 0, sysResult 0 0, sysResult 0 0, sysResult 0 0, sysResult 0 0, sysResult 0 0,
      sysResult 1 0,
      selected 2 [3, 8] [], sysResult 1 0,
      sysResult 9 0, sysResult 0 0, sysResult 0 0, sysResult 0 0, sysResult 0 0]"

definition sampleListener :: Session where
  "sampleListener =
     \<lparr> mSessionID = 1, mState = LISTENING_RTSP, mIsRTSPConnection = False, mSocket = 8,
       mNotify = 5, mSawReceiveFailure = False, mSawSendFailure = False, mOutBuffer = [],
       mOutDatagrams = [], mInBuffer = [] \<rparr>"

definition sampleChild :: Session where
  "sampleChild =
     \<lparr> mSessionID = 2, mState = CONNECTED, mIsRTSPConnection = True, mSocket = 9,
       mNotify = 5, mSawReceiveFailure = False, mSawSendFailure = False, mOutBuffer = [],
       mOutDatagrams = [], mInBuffer = [] \<rparr>"

text \<open>
  A client that creates a UDP session and destroys it again, over and over: the calls,
  starting with the session whose ID is \<open>i\<close>, and the results of the system calls of one
  round (\<^verbatim>\<open>socket\<close>, two \<^verbatim>\<open>setsockopt\<close>, two \<^verbatim>\<open>fcntl\<close>, \<^verbatim>\<open>bind\<close>, and the
  \<^verbatim>\<open>write\<close> to the pipe of each of the two operations).
\<close>

fun churn :: "nat \<Rightarrow> nat \<Rightarrow> call list" where
  "churn i 0 = []"
| "churn i (Suc n) =
     CallCreate kModeCreateUDPSession None 0 None 0 5
       # CallDestroySession (word_of_nat i) # churn (Suc i) n"

definition roundScript :: "sysres list" where
  "roundScript =
     [sysResult 8 0, sysResult 0 0, sysResult 0 0, sysResult 0 0, sysResult 0 0, sysResult 0 0,
      sysResult 1 0, sysResult 1 0]"

chapter \<open>Verification\<close>

section \<open>Auxiliary facts\<close>

lemmas io_defs = io_bind_def io_then_def io_return_def io_fail_def emit_def CHECK_def
  logEvent_def notifyError_def


lemma mask8: "(255::nat) = mask 8" by (simp add: mask_eq_exp_minus_1)

lemma u16_of_prefix:
  "(push_bit 8 (ucast (of_nat (drop_bit 8 n) :: byte)) OR ucast (of_nat (n AND 0xff) :: byte) :: 16 word) = of_nat n"
  apply (rule bit_word_eqI)
  apply (auto simp: bit_simps mask8 not_le)
  done

lemma U16_AT_prefix:
  "n \<le> 65535 \<Longrightarrow> U16_AT (of_nat (drop_bit 8 n) # of_nat (n AND 0xff) # xs) 0 = n"
  by (simp add: U16_AT_def u16_of_prefix unat_of_nat)

lemma prefix_byte0:
  "word_of_int (drop_bit 8 (int n)) = (of_nat (drop_bit 8 n) :: byte)"
  by (simp add: drop_bit_eq_div) (metis int_ops(8) of_int_of_nat_eq of_nat_numeral)

lemma prefix_byte1:
  "word_of_int (int n AND 0xff) = (of_nat (n AND 0xff) :: byte)"
    by (metis int_eq_iff_numeral of_int_of_nat_eq of_nat_and_eq)

lemma Session_sendRequest_stream:
  assumes "mState s = CONNECTED" and "\<not> mIsRTSPConnection s"
  shows "Session_sendRequest p (int (length p)) s =
     (if length p \<le> 65535
      then Inr (OK, s\<lparr>mOutBuffer := mOutBuffer s @ lengthPrefixed p\<rparr>)
      else Inl CheckFailed)"
  using assms
  by (simp add: Session_sendRequest_def memRead_def lengthPrefixed_def prefix_byte0 prefix_byte1)

lemma sendRequests_stream:
  assumes "mState s = CONNECTED" and "\<not> mIsRTSPConnection s"
    and "\<forall>p\<in>set ps. length p \<le> 65535"
  shows "sendRequests ps s = Inr (s\<lparr>mOutBuffer := mOutBuffer s @ concat (map lengthPrefixed ps)\<rparr>)"
  using assms
  by (induction ps arbitrary: s) (simp_all add: Session_sendRequest_stream)

lemma decodeFrames_frame:
  assumes "length p \<le> 65535"
  shows "decodeFrames (lengthPrefixed p @ xs) = (p # fst (decodeFrames xs), snd (decodeFrames xs))"
proof -
  define buf where "buf = lengthPrefixed p @ xs"
  have u: "U16_AT buf 0 = length p"
    using assms by (simp add: buf_def lengthPrefixed_def U16_AT_prefix)
  have l: "length buf = length p + 2 + length xs"
    by (simp add: buf_def lengthPrefixed_def)
  have d: "drop (Suc (Suc (length p))) buf = xs" "take (length p) (drop 2 buf) = p"
    by (simp_all add: buf_def lengthPrefixed_def)
  have "decodeFrames buf = (p # fst (decodeFrames xs), snd (decodeFrames xs))"
    by (subst decodeFrames.simps) (simp add: u l d split: prod.splits)
  then show ?thesis by (simp add: buf_def)
qed

lemma decodeFrames_Nil: "decodeFrames [] = ([], [])"
  by (simp add: decodeFrames.simps)

lemma decodeFrames_round_trip:
  "\<forall>p\<in>set ps. length p \<le> 65535 \<Longrightarrow> decodeFrames (concat (map lengthPrefixed ps)) = (ps, [])"
  by (induction ps) (simp_all add: decodeFrames_Nil decodeFrames_frame)

lemma U16_AT_append: "off + 1 < length buf \<Longrightarrow> U16_AT (buf @ ys) off = U16_AT buf off"
  by (simp add: U16_AT_def nth_append)

lemma decodeFrames_append:
  "decodeFrames (buf @ ys) =
     (fst (decodeFrames buf) @ fst (decodeFrames (snd (decodeFrames buf) @ ys)),
      snd (decodeFrames (snd (decodeFrames buf) @ ys)))"
proof (induction buf rule: decodeFrames.induct)
  case (1 buf)
  show ?case
  proof (cases "length buf \<ge> 2 \<and> length buf \<ge> U16_AT buf 0 + 2")
    case True
    then have u: "U16_AT (buf @ ys) 0 = U16_AT buf 0"
      by (simp add: U16_AT_append)
    have l: "decodeFrames (buf @ ys) =
        (take (U16_AT buf 0) (drop 2 buf) # fst (decodeFrames (drop (U16_AT buf 0 + 2) buf @ ys)),
         snd (decodeFrames (drop (U16_AT buf 0 + 2) buf @ ys)))"
      using True by (subst decodeFrames.simps) (simp add: u split: prod.splits)
    have r: "decodeFrames buf =
        (take (U16_AT buf 0) (drop 2 buf) # fst (decodeFrames (drop (U16_AT buf 0 + 2) buf)),
         snd (decodeFrames (drop (U16_AT buf 0 + 2) buf)))"
      using True by (subst decodeFrames.simps) (simp split: prod.splits)
    show ?thesis
      using "1.IH" [OF True] by (simp add: l r)
  next
    case False
    have "decodeFrames buf = ([], buf)"
      by (subst decodeFrames.simps) (simp only: False if_False)
    then show ?thesis by simp
  qed
qed

lemma lengthPrefixLoop_decodes:
  "lengthPrefixLoop s w =
     Inr (s\<lparr>mInBuffer := snd (decodeFrames (mInBuffer s))\<rparr>,
          w\<lparr>trace := trace w @
             map (\<lambda>p. Post (mNotify s) (kWhatDatagram (mSessionID s) p None))
               (fst (decodeFrames (mInBuffer s)))\<rparr>)"
proof (induction s w rule: lengthPrefixLoop.induct)
  case (1 s w)
  show ?case
  proof (cases "length (mInBuffer s) \<ge> 2 \<and> length (mInBuffer s) \<ge> U16_AT (mInBuffer s) 0 + 2")
    case True
    then have e: "erase0 (U16_AT (mInBuffer s) 0 + 2) (mInBuffer s) =
        Inr (drop (U16_AT (mInBuffer s) 0 + 2) (mInBuffer s))"
      by (auto simp: erase0_def)
    have d: "decodeFrames (mInBuffer s) =
        (take (U16_AT (mInBuffer s) 0) (drop 2 (mInBuffer s)) #
           fst (decodeFrames (drop (U16_AT (mInBuffer s) 0 + 2) (mInBuffer s))),
         snd (decodeFrames (drop (U16_AT (mInBuffer s) 0 + 2) (mInBuffer s))))"
      using True by (subst decodeFrames.simps) (simp split: prod.splits)
    have ih: "lengthPrefixLoop (s\<lparr>mInBuffer := drop (U16_AT (mInBuffer s) 0 + 2) (mInBuffer s)\<rparr>)
         (logEvent (Post (mNotify s) (kWhatDatagram (mSessionID s)
            (take (U16_AT (mInBuffer s) 0) (drop 2 (mInBuffer s))) None)) w) = 
       Inr (s\<lparr>mInBuffer := snd (decodeFrames (drop (U16_AT (mInBuffer s) 0 + 2) (mInBuffer s)))\<rparr>,
          w\<lparr>trace := trace w @ Post (mNotify s) (kWhatDatagram (mSessionID s)
            (take (U16_AT (mInBuffer s) 0) (drop 2 (mInBuffer s))) None) #
             map (\<lambda>p. Post (mNotify s) (kWhatDatagram (mSessionID s) p None))
               (fst (decodeFrames (drop (U16_AT (mInBuffer s) 0 + 2) (mInBuffer s))))\<rparr>)"
      using "1.IH" [OF _ refl _ refl refl e] True by (simp add: logEvent_def)
    show ?thesis
      using True by (subst lengthPrefixLoop.simps) (simp add: e [simplified] d ih [simplified] Let_def)
  next
    case False
    have "decodeFrames (mInBuffer s) = ([], mInBuffer s)"
      by (subst decodeFrames.simps) (simp only: False if_False)
    with False show ?thesis
      by (subst lengthPrefixLoop.simps) (auto simp: Let_def)
  qed
qed

lemma syscall_retry_received:
  "c \<noteq> [] \<Longrightarrow> script w = received c # rest \<Longrightarrow>
   syscall_retry w = Inr (received c, w\<lparr>script := rest\<rparr>)"
  by (simp add: syscall_retry_def received_def)

lemma readMore_lengthPrefix_chunk:
  assumes "mState r \<noteq> DATAGRAM" and "\<not> mIsRTSPConnection r" and "c \<noteq> []"
    and "script w = received c # rest"
  shows "readMore Parse r w =
     Inr ((OK, r\<lparr>mInBuffer := snd (decodeFrames (mInBuffer r @ c))\<rparr>),
          w\<lparr>script := rest,
            trace := trace w @
              map (\<lambda>p. Post (mNotify r) (kWhatDatagram (mSessionID r) p None))
                (fst (decodeFrames (mInBuffer r @ c)))\<rparr>)"
proof -
  have n: "ret (received c) > 0" "take (nat (ret (received c))) (stored (received c)) = c"
    using assms(3) by (simp_all add: received_def)
  show ?thesis
    using assms(1,2) n
    by (simp add: readMore_def io_defs syscall_retry_received [OF assms(3,4)] Let_def
        lengthPrefixLoop_decodes OK_def)
qed

lemma decodeFrames_drained:
  "decodeFrames (snd (decodeFrames buf)) = ([], snd (decodeFrames buf))"
proof (induction buf rule: decodeFrames.induct)
  case (1 buf)
  show ?case
  proof (cases "length buf \<ge> 2 \<and> length buf \<ge> U16_AT buf 0 + 2")
    case True
    have "snd (decodeFrames buf) = snd (decodeFrames (drop (U16_AT buf 0 + 2) buf))"
      using True by (subst decodeFrames.simps) (simp split: prod.splits)
    then show ?thesis using "1.IH" [OF True] by simp
  next
    case False
    have "decodeFrames buf = ([], buf)"
      by (subst decodeFrames.simps) (simp only: False if_False)
    then show ?thesis by simp
  qed
qed

lemma readMores_chunks:
  assumes "mState r \<noteq> DATAGRAM" and "\<not> mIsRTSPConnection r"
    and "\<forall>c\<in>set chunks. c \<noteq> []"
    and "decodeFrames (mInBuffer r) = ([], mInBuffer r)"
    and "script w = map received chunks @ rest"
  shows "readMores Parse (length chunks) r w =
     Inr (r\<lparr>mInBuffer := snd (decodeFrames (mInBuffer r @ concat chunks))\<rparr>,
          w\<lparr>script := rest,
            trace := trace w @
              map (\<lambda>p. Post (mNotify r) (kWhatDatagram (mSessionID r) p None))
                (fst (decodeFrames (mInBuffer r @ concat chunks)))\<rparr>)"
  using assms
proof (induction chunks arbitrary: r w)
  case Nil
  then show ?case by simp
next
  case (Cons c cs)
  have step: "readMore Parse r w =
     Inr ((OK, r\<lparr>mInBuffer := snd (decodeFrames (mInBuffer r @ c))\<rparr>),
          w\<lparr>script := map received cs @ rest,
            trace := trace w @
              map (\<lambda>p. Post (mNotify r) (kWhatDatagram (mSessionID r) p None))
                (fst (decodeFrames (mInBuffer r @ c)))\<rparr>)"
    using Cons.prems by (intro readMore_lengthPrefix_chunk) simp_all
  have app: "decodeFrames (mInBuffer r @ c @ concat cs) =
     (fst (decodeFrames (mInBuffer r @ c)) @
        fst (decodeFrames (snd (decodeFrames (mInBuffer r @ c)) @ concat cs)),
      snd (decodeFrames (snd (decodeFrames (mInBuffer r @ c)) @ concat cs)))"
    using decodeFrames_append [of "mInBuffer r @ c" "concat cs"] by simp
  show ?case
    using Cons.prems
    by (simp add: step app Cons.IH decodeFrames_drained)
qed

lemma lengthPrefixed_small:
  "length p < 256 \<Longrightarrow> lengthPrefixed p = 0 # of_nat (length p) # p"
  by (simp add: lengthPrefixed_def mask8 drop_bit_eq_div flip: take_bit_eq_mask)
     (simp add: take_bit_eq_mod)

section \<open>Length-prefix framing\<close>

text \<open>
  The size limit for calls that give the size explicitly. On a connected stream session
  with \<open>is_rtsp_connection = false\<close>, a payload of at most 65535 bytes is enqueued
  behind its two-byte length prefix and the call returns \<open>OK\<close>; a larger one (65536
  bytes is the first) fails the \<^verbatim>\<open>CHECK_LE(size, 65535)\<close>: the process aborts and
  nothing is returned.
\<close>

theorem length_prefix_size_limit:
  assumes "mState s = CONNECTED" and "\<not> mIsRTSPConnection s"
  shows "Session_sendRequest p (int (length p)) s =
     (if length p \<le> 65535
      then Inr (OK, s\<lparr>mOutBuffer := mOutBuffer s @ lengthPrefixed p\<rparr>)
      else Inl CheckFailed)"
  using assms by (rule Session_sendRequest_stream)

theorem length_prefix_size_limit_witness:
  "Session_sendRequest (replicate 65535 0) 65535 (sampleSession CONNECTED False) =
     Inr (OK, (sampleSession CONNECTED False)\<lparr>mOutBuffer := 0xff # 0xff # replicate 65535 0\<rparr>)
   \<and> Session_sendRequest (replicate 65536 0) 65536 (sampleSession CONNECTED False) =
     Inl CheckFailed"
  using length_prefix_size_limit [of "sampleSession CONNECTED False" "replicate 65535 0"]
        length_prefix_size_limit [of "sampleSession CONNECTED False" "replicate 65536 0"]
  by (simp add: sampleSession_def lengthPrefixed_def)

text \<open>
  The round trip for calls that give the size explicitly. A sequence of
  \<open>send_request\<close> calls with payloads \<open>p\<^sub>i\<close> (each within the size limit, given with
  its explicit size) on a connected stream session with \<open>is_rtsp_connection = false\<close>
  appends to the outbound buffer, call by call, the bytes \<open>[len >> 8, len & 0xff]\<close>
  followed by the payload. A peer that reads that byte stream with \<open>readMore\<close>,
  however the stream is cut into the chunks that \<^verbatim>\<open>recv\<close> delivers, posts exactly
  the payloads \<open>p\<^sub>i\<close>, in order, one \<open>kWhatDatagram\<close> notification each (an empty
  payload for the frame \<open>00 00\<close>), and nothing else, and is left with an empty inbound
  buffer.
\<close>

theorem length_prefix_round_trip:
  assumes "mState s = CONNECTED" and "\<not> mIsRTSPConnection s"
    and "\<forall>p\<in>set ps. length p \<le> 65535"
    and "mState r \<noteq> DATAGRAM" and "\<not> mIsRTSPConnection r" and "mInBuffer r = []"
    and "\<forall>c\<in>set chunks. c \<noteq> []"
    and "concat chunks = concat (map lengthPrefixed ps)"
    and "script w = map received chunks"
  shows "sendRequests ps s =
           Inr (s\<lparr>mOutBuffer := mOutBuffer s @ concat (map lengthPrefixed ps)\<rparr>)
       \<and> readMores Parse (length chunks) r w =
           Inr (r, w\<lparr>script := [],
                     trace := trace w @
                       map (\<lambda>p. Post (mNotify r) (kWhatDatagram (mSessionID r) p None)) ps\<rparr>)"
proof
  show "sendRequests ps s =
           Inr (s\<lparr>mOutBuffer := mOutBuffer s @ concat (map lengthPrefixed ps)\<rparr>)"
    using assms(1-3) by (rule sendRequests_stream)
next
  have d: "decodeFrames (mInBuffer r) = ([], mInBuffer r)"
    by (simp add: assms(6) decodeFrames_Nil)
  have "readMores Parse (length chunks) r w =
     Inr (r\<lparr>mInBuffer := snd (decodeFrames (mInBuffer r @ concat chunks))\<rparr>,
          w\<lparr>script := [],
            trace := trace w @
              map (\<lambda>p. Post (mNotify r) (kWhatDatagram (mSessionID r) p None))
                (fst (decodeFrames (mInBuffer r @ concat chunks)))\<rparr>)"
    using assms(4,5,7) d by (rule readMores_chunks) (simp add: assms(9))
  moreover have "decodeFrames (mInBuffer r @ concat chunks) = (ps, [])"
    by (simp add: assms(6,8) decodeFrames_round_trip [OF assms(3)])
  moreover have "r\<lparr>mInBuffer := []\<rparr> = r"
    using assms(6) by simp
  ultimately show "readMores Parse (length chunks) r w =
           Inr (r, w\<lparr>script := [],
                     trace := trace w @
                       map (\<lambda>p. Post (mNotify r) (kWhatDatagram (mSessionID r) p None)) ps\<rparr>)"
    by simp
qed

theorem length_prefix_round_trip_witness:
  "sendRequests [[1, 2, 3], [], [4]] (sampleSession CONNECTED False) =
     Inr ((sampleSession CONNECTED False)\<lparr>mOutBuffer := [0, 3, 1, 2, 3, 0, 0, 0, 1, 4]\<rparr>)
   \<and> readMores (\<lambda>buf noMoreData. None) 4 (sampleSession CONNECTED False)
        (sampleWorld (map received [[0], [3, 1, 2], [3, 0, 0, 0, 1], [4]])) =
     Inr (sampleSession CONNECTED False,
          (sampleWorld [])\<lparr>trace :=
             [Post 0 (kWhatDatagram 1 [1, 2, 3] None),
              Post 0 (kWhatDatagram 1 [] None),
              Post 0 (kWhatDatagram 1 [4] None)]\<rparr>)"
proof -
  let ?s = "sampleSession CONNECTED False"
  let ?ps = "[[1, 2, 3], [], [4]] :: bytes list"
  let ?chunks = "[[0], [3, 1, 2], [3, 0, 0, 0, 1], [4]] :: bytes list"
  let ?w = "sampleWorld (map received ?chunks)"
  have a: "mState ?s = CONNECTED" "\<not> mIsRTSPConnection ?s" "mState ?s \<noteq> DATAGRAM"
      "mInBuffer ?s = []"
    by (simp_all add: sampleSession_def)
  have b: "\<forall>p\<in>set ?ps. length p \<le> 65535" "\<forall>c\<in>set ?chunks. c \<noteq> []"
    by simp_all
  have c: "concat ?chunks = concat (map lengthPrefixed ?ps)"
    by (simp add: lengthPrefixed_small)
  have d: "script ?w = map received ?chunks"
    by (simp add: sampleWorld_def)
  have e: "length ?chunks = 4"
    by simp
  show ?thesis
    using length_prefix_round_trip [OF a(1,2) b(1) a(3,2,4) b(2) c d, of "\<lambda>buf noMoreData. None",
        unfolded e]
    by (simp add: sampleSession_def sampleWorld_def lengthPrefixed_small)
qed

text \<open>
  Calls with a negative size: the payload is the NUL-terminated string at \<^verbatim>\<open>data\<close>,
  while the size check and the prefix are computed from the size argument.
\<close>

lemma cString_terminated:
  "0 \<notin> set p \<Longrightarrow> cString (p @ 0 # junk) = Inr p"
  by (auto simp: cString_def takeWhile_tail)

lemma prefix_of_minus_one:
  "(word_of_int (drop_bit 8 (- 1 :: int)) :: byte) = 0xff"
  "(word_of_int ((- 1 :: int) AND 0xff) :: byte) = 0xff"
  by simp_all

lemma Session_sendRequest_negative:
  assumes "mState s = CONNECTED" and "\<not> mIsRTSPConnection s" and "0 \<notin> set p" and "sz < 0"
  shows "Session_sendRequest (p @ 0 # junk) sz s =
     Inr (OK, s\<lparr>mOutBuffer := mOutBuffer s @
                 [word_of_int (drop_bit 8 sz), word_of_int (sz AND 0xff)] @ p\<rparr>)"
  using assms by (simp add: Session_sendRequest_def cString_terminated)

lemma Session_sendRequest_minus_one:
  assumes "mState s = CONNECTED" and "\<not> mIsRTSPConnection s" and "0 \<notin> set p"
  shows "Session_sendRequest (p @ [0]) (- 1) s =
     Inr (OK, s\<lparr>mOutBuffer := mOutBuffer s @ [0xff, 0xff] @ p\<rparr>)"
  using Session_sendRequest_negative [OF assms, of "- 1" "[]"]
  by (simp only: prefix_of_minus_one)

lemma decodeFrames_waits:
  assumes "length p < 65535"
  shows "decodeFrames ([0xff, 0xff] @ p) = ([], [0xff, 0xff] @ p)"
proof -
  have "U16_AT ([0xff, 0xff] @ p) 0 = 65535"
    by (simp add: U16_AT_def)
  then show ?thesis
    using assms by (subst decodeFrames.simps) simp
qed


text \<open>
  Claim C8. The claim is that \<open>send_request\<close> on a connected stream session with
  \<open>is_rtsp_connection = false\<close> requires a payload of at most 65535 bytes, so that
  65536 bytes are rejected. The code checks the \<^verbatim>\<open>size\<close> argument, not the number of
  bytes it appends: called with a negative size, \<^verbatim>\<open>CHECK_LE(size, 65535)\<close> passes and
  the payload, the bytes up to the terminating NUL, is enqueued whatever its length,
  behind the prefix \<open>ff ff\<close>. Called with the explicit size, the same payload fails the
  check (\<open>length_prefix_size_limit\<close>).
\<close>

theorem size_limit_skipped_for_negative_size:
  assumes "mState s = CONNECTED" and "\<not> mIsRTSPConnection s"
    and "0 \<notin> set p" and "length p > 65535"
  shows "Session_sendRequest (p @ [0]) (- 1) s =
           Inr (OK, s\<lparr>mOutBuffer := mOutBuffer s @ [0xff, 0xff] @ p\<rparr>)
       \<and> Session_sendRequest p (int (length p)) s = Inl CheckFailed"
  using Session_sendRequest_minus_one [OF assms(1-3)] Session_sendRequest_stream [OF assms(1,2), of p]
    assms(4)
  by simp

theorem size_limit_skipped_for_negative_size_witness:
  "Session_sendRequest (replicate 65536 0x41 @ [0]) (- 1) (sampleSession CONNECTED False) =
     Inr (OK, (sampleSession CONNECTED False)\<lparr>mOutBuffer :=
                [0xff, 0xff] @ replicate 65536 0x41\<rparr>)
   \<and> Session_sendRequest (replicate 65536 0x41) 65536 (sampleSession CONNECTED False) =
     Inl CheckFailed"
proof -
  have a: "mState (sampleSession CONNECTED False) = CONNECTED"
    "\<not> mIsRTSPConnection (sampleSession CONNECTED False)"
    "mOutBuffer (sampleSession CONNECTED False) = []"
    by (simp_all add: sampleSession_def)
  have b: "(0 :: byte) \<notin> set (replicate 65536 0x41)" "length (replicate 65536 (0x41 :: byte)) > 65535"
    by simp_all
  have c: "int (length (replicate 65536 (0x41 :: byte))) = 65536"
    by simp
  from size_limit_skipped_for_negative_size [OF a(1,2) b] show ?thesis
    unfolding c a(3) append_Nil .
qed

text \<open>
  Claim C1. The claim is that every \<open>send_request\<close> call on a connected stream session
  with \<open>is_rtsp_connection = false\<close> appends \<open>[len >> 8, len & 0xff]\<close> followed by the
  payload, so that the decoding peer posts the payloads in order. The code computes the
  prefix from the \<^verbatim>\<open>size\<close> argument, also when that is negative and the payload is
  the NUL-terminated string at \<^verbatim>\<open>data\<close>: for size \<open>-1\<close> it appends \<open>ff ff\<close> followed
  by the payload, which is not the frame of a payload shorter than 65535 bytes, and the
  peer that receives these bytes posts nothing and keeps them buffered, waiting for a
  frame of 65535 bytes. For calls that give the size explicitly the claim holds
  (\<open>length_prefix_round_trip\<close>).
\<close>

theorem negative_size_breaks_round_trip:
  assumes "mState s = CONNECTED" and "\<not> mIsRTSPConnection s"
    and "0 \<notin> set p" and "length p < 65535"
    and "mState r \<noteq> DATAGRAM" and "\<not> mIsRTSPConnection r" and "mInBuffer r = []"
    and "script w = received ([0xff, 0xff] @ p) # rest"
  shows "Session_sendRequest (p @ [0]) (- 1) s =
           Inr (OK, s\<lparr>mOutBuffer := mOutBuffer s @ [0xff, 0xff] @ p\<rparr>)
       \<and> [0xff, 0xff] @ p \<noteq> lengthPrefixed p
       \<and> readMore Parse r w =
           Inr ((OK, r\<lparr>mInBuffer := [0xff, 0xff] @ p\<rparr>), w\<lparr>script := rest\<rparr>)"
proof (intro conjI)
  show "Session_sendRequest (p @ [0]) (- 1) s =
           Inr (OK, s\<lparr>mOutBuffer := mOutBuffer s @ [0xff, 0xff] @ p\<rparr>)"
    using assms(1-3) by (rule Session_sendRequest_minus_one)
  have "decodeFrames (lengthPrefixed p) = ([p], [])"
    using decodeFrames_round_trip [of "[p]"] assms(4) by simp
  then show "[0xff, 0xff] @ p \<noteq> lengthPrefixed p"
    using decodeFrames_waits [OF assms(4)] by auto
  have "readMore Parse r w =
     Inr ((OK, r\<lparr>mInBuffer := snd (decodeFrames (mInBuffer r @ ([0xff, 0xff] @ p)))\<rparr>),
          w\<lparr>script := rest,
            trace := trace w @
              map (\<lambda>p. Post (mNotify r) (kWhatDatagram (mSessionID r) p None))
                (fst (decodeFrames (mInBuffer r @ ([0xff, 0xff] @ p))))\<rparr>)"
    using assms(5,6) _ assms(8) by (rule readMore_lengthPrefix_chunk) simp
  then show "readMore Parse r w =
           Inr ((OK, r\<lparr>mInBuffer := [0xff, 0xff] @ p\<rparr>), w\<lparr>script := rest\<rparr>)"
    unfolding assms(7) append_Nil decodeFrames_waits [OF assms(4)] by simp
qed

theorem negative_size_breaks_round_trip_witness:
  "Session_sendRequest [0x68, 0x69, 0] (- 1) (sampleSession CONNECTED False) =
     Inr (OK, (sampleSession CONNECTED False)\<lparr>mOutBuffer := [0xff, 0xff, 0x68, 0x69]\<rparr>)
   \<and> [0xff, 0xff, 0x68, 0x69] \<noteq> lengthPrefixed [0x68, 0x69]
   \<and> readMore sampleParse (sampleSession CONNECTED False)
        (sampleWorld [received [0xff, 0xff, 0x68, 0x69]]) =
     Inr ((0, (sampleSession CONNECTED False)\<lparr>mInBuffer := [0xff, 0xff, 0x68, 0x69]\<rparr>),
          sampleWorld [])"
proof -
  have a: "mState (sampleSession CONNECTED False) = CONNECTED"
    "\<not> mIsRTSPConnection (sampleSession CONNECTED False)"
    "mState (sampleSession CONNECTED False) \<noteq> DATAGRAM"
    "mInBuffer (sampleSession CONNECTED False) = []"
    by (simp_all add: sampleSession_def)
  have b: "(0 :: byte) \<notin> set [0x68, 0x69]" "length [0x68, 0x69 :: byte] < 65535"
    by simp_all
  have c: "script (sampleWorld [received [0xff, 0xff, 0x68, 0x69]]) =
      received ([0xff, 0xff] @ [0x68, 0x69]) # []"
    by (simp add: sampleWorld_def)
  from negative_size_breaks_round_trip [OF a(1,2) b a(3,2,4) c, of sampleParse]
  show ?thesis
    by (simp add: sampleSession_def sampleWorld_def OK_def)
qed








lemma rtpStamp_nomatch:
  assumes "\<not> isRTP33 d" and "stampInRange d"
  shows "rtpStamp d w = Inr (d, w)"
  using assms by (auto simp: rtpStamp_def isRTP33_def stampInRange_def simp del: length_greater_0_conv)

lemma rtpStamp_fault:
  "rtpStamp d w = Inl e \<longleftrightarrow> e = OutOfRange \<and> \<not> stampInRange d"
  by (cases d)
     (auto simp: rtpStamp_def isRTP33_def stampInRange_def GetNowUs_def Let_def Suc_le_eq)

lemma rtpStamp_trace: "rtpStamp d w = Inr (d', w1) \<Longrightarrow> trace w1 = trace w \<and> script w1 = script w"
  by (auto simp: rtpStamp_def GetNowUs_def Let_def split: if_splits)

lemma syscall_retry_trace: "syscall_retry w = Inr (r, w') \<Longrightarrow> trace w' = trace w"
  by (auto simp: syscall_retry_def split: option.splits)

lemma skipEINTR_shorter: "skipEINTR scr = Some (r, rs) \<Longrightarrow> length rs < length scr"
  by (induction scr) (auto split: if_splits)

lemma syscall_retry_shorter:
  "syscall_retry w = Inr (r, w') \<Longrightarrow> length (script w') < length (script w)"
  by (auto simp: syscall_retry_def split: option.splits dest: skipEINTR_shorter)

lemma datagramLoop_step:
  assumes "rtpStamp d w = Inr (data, w1)"
    and "syscall_retry (logEvent (Send fd data) w1) = Inr (r, w2)"
  shows "datagramLoop fd (d # ds) w =
     (if ret r > 0 then (if ds \<noteq> [] then datagramLoop fd ds w2 else Inr ((OK, ds), w2))
      else if ret r < 0 then
        (if - errno r = OK then datagramLoop fd (data # ds) w2
         else Inr ((- errno r, data # ds), w2))
      else Inr ((- ECONNRESET, data # ds), w2))"
  by (subst datagramLoop.simps) (simp add: assms)

lemma datagramLoop_Inr:
  assumes "datagramLoop fd q w = Inr (res, w')"
  obtains d ds data w1 r w2 where "q = d # ds" "rtpStamp d w = Inr (data, w1)"
    "syscall_retry (logEvent (Send fd data) w1) = Inr (r, w2)"
  using assms
  by (subst (asm) datagramLoop.simps) (auto split: list.splits sum.splits)






section \<open>The RTP egress stamp\<close>


lemmas run_defs = writeMore_def io_defs sampleSession_def sampleWorld_def sysResult_def
      datagramLoop.simps rtpStamp_def GetNowUs_def syscall_retry_def syscall_def Let_def rtpTimeOf_def
      signed_divide_int_def OK_def EAGAIN_def ECONNRESET_def EINTR_def ENOENT_def


lemma rtpStamp_keeps_range:
  assumes "rtpStamp d w = Inr (data, w1)"
  shows "stampInRange data"
proof -
  have r: "stampInRange d"
    using assms rtpStamp_fault [of d w OutOfRange] by auto
  show ?thesis
  proof (cases "isRTP33 d")
    case True
    with r have l: "8 \<le> length d" by (simp add: stampInRange_def)
    with True assms have "data = d[4 := ucast (drop_bit 24 (rtpTimeOf (clock w 0))),
                             5 := ucast (drop_bit 16 (rtpTimeOf (clock w 0)) AND 0xff),
                             6 := ucast (drop_bit 8 (rtpTimeOf (clock w 0)) AND 0xff),
                             7 := ucast (rtpTimeOf (clock w 0) AND 0xff)]"
      by (auto simp: rtpStamp_def isRTP33_def GetNowUs_def Let_def split: if_splits)
    then have "length data = length d" "data ! 0 = d ! 0" "data ! 1 = d ! 1"
      by simp_all
    with r show ?thesis
      by (simp add: stampInRange_def isRTP33_def)
  next
    case False
    with r assms show ?thesis by (simp add: rtpStamp_nomatch)
  qed
qed

lemma datagramLoop_in_range:
  "q \<noteq> [] \<Longrightarrow> \<forall>x\<in>set q. stampInRange x \<Longrightarrow> datagramLoop fd q w \<noteq> Inl OutOfRange"
proof (induction "length (script w)" arbitrary: q w rule: less_induct)
  case less
  from less.prems obtain d ds where q: "q = d # ds" and rd: "stampInRange d"
    and rds: "\<forall>x\<in>set ds. stampInRange x"
    by (cases q) auto
  from rd obtain data w1 where st: "rtpStamp d w = Inr (data, w1)"
    using rtpStamp_fault [of d w] by (cases "rtpStamp d w") auto
  have t1: "script w1 = script w"
    using rtpStamp_trace [OF st] by simp
  show ?case
  proof (cases "syscall_retry (logEvent (Send fd data) w1)")
    case (Inl e)
    then have "e = ScriptExhausted"
      by (auto simp: syscall_retry_def split: option.splits)
    with Inl show ?thesis
      unfolding q by (subst datagramLoop.simps) (simp add: st)
  next
    case (Inr x)
    then obtain r w2 where sc: "syscall_retry (logEvent (Send fd data) w1) = Inr (r, w2)"
      by (cases x) auto
    have l2: "length (script w2) < length (script w)"
      using syscall_retry_shorter [OF sc] by (simp add: logEvent_def t1)
    have a: "datagramLoop fd ds w2 \<noteq> Inl OutOfRange" if "ds \<noteq> []"
      using less.hyps [OF l2 that rds] .
    have b: "datagramLoop fd (data # ds) w2 \<noteq> Inl OutOfRange"
      using less.hyps [OF l2, of "data # ds"] rds rtpStamp_keeps_range [OF st] by simp
    show ?thesis
      unfolding q using a b by (simp add: datagramLoop_step [OF st sc])
  qed
qed

lemma datagramLoop_out_of_range:
  "\<not> stampInRange d \<Longrightarrow> datagramLoop fd (d # ds) w = Inl OutOfRange"
  using rtpStamp_fault [of d w OutOfRange]
  by (subst datagramLoop.simps) simp

text \<open>
  Claim C9, as amended. The RTP check reads byte 0 of the head datagram unconditionally,
  byte 1 only if byte 0 is \<open>0x80\<close>, and bytes 4..7 only if the pattern matches, and never
  looks at the datagram's size, while \<open>send_request\<close> on a \<open>DATAGRAM\<close> session accepts
  every payload of size at least 0, the empty one included. The indexing is out of
  range exactly for a datagram outside \<open>stampInRange\<close>: an empty one, a one-byte
  datagram \<open>0x80\<close>, or one that matches the pattern and has fewer than 8 bytes. With
  such a datagram at the head \<open>writeMore\<close> indexes out of range; with every queued
  datagram in range it never does.
\<close>

theorem rtp_stamp_range_precondition:
  "(rtpStamp d w = Inl OutOfRange \<longleftrightarrow> \<not> stampInRange d)
   \<and> (mState s = DATAGRAM \<and> mOutDatagrams s = d # ds \<and> \<not> stampInRange d \<longrightarrow>
        writeMore eb s w = Inl OutOfRange)
   \<and> (mState s = DATAGRAM \<and> mOutDatagrams s \<noteq> [] \<and> (\<forall>x\<in>set (mOutDatagrams s). stampInRange x) \<longrightarrow>
        writeMore eb s w \<noteq> Inl OutOfRange)
   \<and> (mState s = DATAGRAM \<and> n \<le> length data \<longrightarrow>
        Session_sendRequest data (int n) s =
          Inr (OK, s\<lparr>mOutDatagrams := mOutDatagrams s @ [take n data]\<rparr>))"
proof (intro conjI impI; (elim conjE)?)
  show "rtpStamp d w = Inl OutOfRange \<longleftrightarrow> \<not> stampInRange d"
    by (simp add: rtpStamp_fault)
next
  assume "mState s = DATAGRAM" "mOutDatagrams s = d # ds" "\<not> stampInRange d"
  then show "writeMore eb s w = Inl OutOfRange"
    by (simp add: writeMore_def io_defs datagramLoop_out_of_range)
next
  assume a: "mState s = DATAGRAM" "mOutDatagrams s \<noteq> []" "\<forall>x\<in>set (mOutDatagrams s). stampInRange x"
  from datagramLoop_in_range [OF a(2,3), of "mSocket s" w] a(1,2)
  show "writeMore eb s w \<noteq> Inl OutOfRange"
    by (auto simp: writeMore_def io_defs Let_def split: sum.splits prod.splits if_splits)
next
  assume "mState s = DATAGRAM" "n \<le> length data"
  then show "Session_sendRequest data (int n) s =
          Inr (OK, s\<lparr>mOutDatagrams := mOutDatagrams s @ [take n data]\<rparr>)"
    by (simp add: Session_sendRequest_def memRead_def)
qed

theorem rtp_stamp_range_precondition_witness:
  "rtpStamp [] (sampleWorld []) = Inl OutOfRange
   \<and> rtpStamp [0x80] (sampleWorld []) = Inl OutOfRange
   \<and> rtpStamp [0x80, 0x21, 0, 1] (sampleWorld []) = Inl OutOfRange
   \<and> Session_sendRequest [] 0 (sampleSession DATAGRAM False) =
        Inr (OK, (sampleSession DATAGRAM False)\<lparr>mOutDatagrams := [[]]\<rparr>)
   \<and> writeMore 0 ((sampleSession DATAGRAM False)\<lparr>mOutDatagrams := [[]]\<rparr>)
        (sampleWorld [sysResult 0 0]) = Inl OutOfRange
   \<and> writeMore 0 ((sampleSession DATAGRAM False)\<lparr>mOutDatagrams := [[1, 2, 3]]\<rparr>)
        (sampleWorld [sysResult 3 0]) \<noteq> Inl OutOfRange"
proof -
  let ?s = "sampleSession DATAGRAM False"
  have r: "\<not> stampInRange []" "\<not> stampInRange [0x80]" "\<not> stampInRange [0x80, 0x21, 0, 1]"
    "stampInRange [1, 2, 3]"
    by (simp_all add: stampInRange_def isRTP33_def)
  have s: "mState ?s = DATAGRAM" "mOutDatagrams ?s = []"
    by (simp_all add: sampleSession_def)
  show ?thesis
    using rtp_stamp_range_precondition [of "[]" "sampleWorld []" "?s\<lparr>mOutDatagrams := [[]]\<rparr>" "[]" 0 0 "[]"]
      rtp_stamp_range_precondition [of "[0x80]" "sampleWorld []" "?s" "[]" 0 0 "[]"]
      rtp_stamp_range_precondition [of "[0x80, 0x21, 0, 1]" "sampleWorld []" "?s" "[]" 0 0 "[]"]
      rtp_stamp_range_precondition [of "[]" "sampleWorld [sysResult 0 0]" "?s\<lparr>mOutDatagrams := [[]]\<rparr>" "[]" 0 0 "[]"]
      rtp_stamp_range_precondition [of "[]" "sampleWorld [sysResult 3 0]" "?s\<lparr>mOutDatagrams := [[1, 2, 3]]\<rparr>" "[]" 0 0 "[]"]
      rtp_stamp_range_precondition [of "[]" "sampleWorld []" "?s" "[]" 0 0 "[]"]
      r s
    by simp
qed

text \<open>
  The claim as stated asks for at least 2 bytes in every datagram and calls the
  indexing of every shorter one out of range. A one-byte datagram whose byte is not
  \<open>0x80\<close> is accepted, stamped (not at all) and sent without any index out of range.
\<close>

theorem short_datagram_counterexample:
  "length [0 :: byte] < 2
   \<and> Session_sendRequest [0] 1 (sampleSession DATAGRAM False) =
        Inr (OK, (sampleSession DATAGRAM False)\<lparr>mOutDatagrams := [[0]]\<rparr>)
   \<and> writeMore 0 ((sampleSession DATAGRAM False)\<lparr>mOutDatagrams := [[0]]\<rparr>)
        (sampleWorld [sysResult 1 0]) =
        Inr ((OK, (sampleSession DATAGRAM False)\<lparr>mOutDatagrams := []\<rparr>),
             (sampleWorld [])\<lparr>trace := [Send 7 [0]]\<rparr>)"
  by (simp add: run_defs Session_sendRequest_def memRead_def)

section \<open>Connect completion\<close>

lemma writeMore_connecting:
  assumes "mState s = CONNECTING" and "script w = r # rest" and "ret r = 0" and "optlen r = 4"
  shows "writeMore whatError s w =
     (if optval r = 0 then
        Inr ((OK, s\<lparr>mState := CONNECTED\<rparr>),
             w\<lparr>script := rest,
               trace := trace w @ [Post (mNotify s) (kWhatConnected (mSessionID s))]\<rparr>)
      else
        Inr ((- optval r, s\<lparr>mSawSendFailure := True\<rparr>),
             w\<lparr>script := rest,
               trace := trace w @
                 [Post (mNotify s)
                    (kWhatError (mSessionID s) (whatError \<noteq> 0) (- optval r) ''Connection failed'')]\<rparr>))"
  using assms by (simp add: writeMore_def io_defs syscall_def)

lemma send_failure_stops_writing: "\<not> wantsToWrite (s\<lparr>mSawSendFailure := True\<rparr>)"
  by (simp add: wantsToWrite_def)

text \<open>
  Claim C5. Connect completion. A session in state \<open>CONNECTING\<close> that becomes
  write-ready reads \<^verbatim>\<open>SO_ERROR\<close>. On a non-zero error the claim asks for an
  \<open>kWhatError\<close> notification with \<open>send = true\<close>; the code passes the reason code
  \<^verbatim>\<open>kWhatError\<close> where \<^verbatim>\<open>notifyError\<close> expects \<^verbatim>\<open>bool send\<close>. With
  \<^verbatim>\<open>kWhatError\<close> equal to 0 and \<^verbatim>\<open>SO_ERROR\<close> equal to 111
  (\<^verbatim>\<open>ECONNREFUSED\<close>) the posted notification carries \<open>send = False\<close>; the error
  code is negated, the send-failure flag is set, the state stays \<open>CONNECTING\<close>, and the
  session no longer wants to write.
\<close>

theorem connect_failure_posts_send_false:
  "writeMore 0 (sampleSession CONNECTING True) (sampleWorld [sockoptResult 111]) =
     Inr ((- 111, (sampleSession CONNECTING True)\<lparr>mSawSendFailure := True\<rparr>),
          (sampleWorld [])\<lparr>trace := [Post 0 (kWhatError 1 False (- 111) ''Connection failed'')]\<rparr>)
   \<and> mState ((sampleSession CONNECTING True)\<lparr>mSawSendFailure := True\<rparr>) = CONNECTING
   \<and> \<not> wantsToWrite ((sampleSession CONNECTING True)\<lparr>mSawSendFailure := True\<rparr>)"
  by (simp add: writeMore_connecting [where r = "sockoptResult 111" and rest = "[]"]
      sampleSession_def sampleWorld_def sockoptResult_def sysResult_def wantsToWrite_def)

section \<open>RTSP stream framing and the failing read pass\<close>

lemma rtspLoop_binary:
  assumes "length (mInBuffer s) \<ge> 4" and "mInBuffer s ! 0 = 0x24"
    and "length (mInBuffer s) \<ge> 4 + U16_AT (mInBuffer s) 2"
  shows "rtspLoop Parse err s w =
     rtspLoop Parse err (s\<lparr>mInBuffer := drop (4 + U16_AT (mInBuffer s) 2) (mInBuffer s)\<rparr>)
       (logEvent (Post (mNotify s)
          (kWhatBinaryData (mSessionID s) (mInBuffer s ! 1)
             (take (U16_AT (mInBuffer s) 2) (drop 4 (mInBuffer s))) (clock w 0)))
          (w\<lparr>clock := (\<lambda>n. clock w (Suc n))\<rparr>))"
  using assms
  by (subst rtspLoop.simps) (auto simp: GetNowUs_def erase0_def)

lemma rtspLoop_binary_incomplete:
  assumes "startsBinary (mInBuffer s)"
    and "\<not> (length (mInBuffer s) \<ge> 4 \<and> length (mInBuffer s) \<ge> 4 + U16_AT (mInBuffer s) 2)"
  shows "rtspLoop Parse err s w = Some (Inr (s, w))"
  using assms
  by (subst rtspLoop.simps) (auto simp: startsBinary_def)

lemma rtspLoop_parse_none:
  assumes "\<not> startsBinary (mInBuffer s)" and "Parse (mInBuffer s) (err \<noteq> OK) = None"
  shows "rtspLoop Parse err s w = Some (Inr (s, w))"
  using assms
  by (subst rtspLoop.simps) (auto simp: startsBinary_def)

lemma rtspLoop_parse_some:
  assumes "\<not> startsBinary (mInBuffer s)" and "Parse (mInBuffer s) (err \<noteq> OK) = Some (msg, len)"
    and "idrAdjust (getContent msg) len (mInBuffer s) = Inr len'"
    and "mInBuffer s \<noteq> []" and "len' \<le> length (mInBuffer s)"
  shows "rtspLoop Parse err s w =
     (if err \<noteq> OK
      then Some (Inr (s\<lparr>mInBuffer := drop len' (mInBuffer s)\<rparr>,
                     logEvent (Post (mNotify s) (kWhatData (mSessionID s) msg)) w))
      else rtspLoop Parse err (s\<lparr>mInBuffer := drop len' (mInBuffer s)\<rparr>)
             (logEvent (Post (mNotify s) (kWhatData (mSessionID s) msg)) w))"
  using assms
  by (subst rtspLoop.simps) (auto simp: startsBinary_def erase0_def)

lemma idrAdjust_in_range:
  assumes "len \<le> length buf"
  shows "\<exists>len'. idrAdjust content len buf = Inr len' \<and> len' \<le> length buf"
  using assms
  by (auto simp: idrAdjust_def c_str_at_def split: option.splits)

lemma map_enumerate_Suc:
  "map (\<lambda>(k, x). g (Suc k) x) (enumerate n xs) = map (\<lambda>(k, x). g k x) (enumerate (Suc n) xs)"
  by (induction xs arbitrary: n) auto

lemma binaryFrames_complete:
  assumes "length buf \<ge> 4" "buf ! 0 = 0x24" "length buf \<ge> 4 + U16_AT buf 2"
  shows "binaryFrames buf =
     ((buf ! 1, take (U16_AT buf 2) (drop 4 buf)) # fst (binaryFrames (drop (4 + U16_AT buf 2) buf)),
      snd (binaryFrames (drop (4 + U16_AT buf 2) buf)))"
  using assms by (subst binaryFrames.simps) (simp split: prod.splits)

lemma binaryFrames_none:
  assumes "\<not> (length buf \<ge> 4 \<and> buf ! 0 = 0x24 \<and> length buf \<ge> 4 + U16_AT buf 2)"
  shows "binaryFrames buf = ([], buf)"
  by (subst binaryFrames.simps) (simp only: assms if_False)

lemma rtspLoop_error_pass:
  assumes "err \<noteq> OK" and "parserInRange Parse"
  shows "\<exists>s' w'. rtspLoop Parse err s w = Some (Inr (s', w'))
      \<and> trace w' = trace w @
            map (Post (mNotify s)) (rtspPassNotifications Parse (mSessionID s) (clock w) (mInBuffer s))
      \<and> script w' = script w \<and> mNotify s' = mNotify s \<and> mSessionID s' = mSessionID s"
proof (induction "length (mInBuffer s)" arbitrary: s w rule: less_induct)
  case less
  let ?buf = "mInBuffer s"
  show ?case
  proof (cases "length ?buf \<ge> 4 \<and> ?buf ! 0 = 0x24 \<and> length ?buf \<ge> 4 + U16_AT ?buf 2")
    case True
    let ?s1 = "s\<lparr>mInBuffer := drop (4 + U16_AT ?buf 2) ?buf\<rparr>"
    let ?ev = "Post (mNotify s) (kWhatBinaryData (mSessionID s) (?buf ! 1)
                  (take (U16_AT ?buf 2) (drop 4 ?buf)) (clock w 0))"
    let ?w1 = "logEvent ?ev (w\<lparr>clock := (\<lambda>n. clock w (Suc n))\<rparr>)"
    have step: "rtspLoop Parse err s w = rtspLoop Parse err ?s1 ?w1"
      using True by (intro rtspLoop_binary) simp_all
    have shorter: "length (mInBuffer ?s1) < length ?buf"
      using True by auto
    from less [OF shorter, of ?w1] obtain s' w' where
      r: "rtspLoop Parse err ?s1 ?w1 = Some (Inr (s', w'))"
      and t: "trace w' = trace ?w1 @
            map (Post (mNotify ?s1))
              (rtspPassNotifications Parse (mSessionID ?s1) (clock ?w1) (mInBuffer ?s1))"
      and o: "script w' = script ?w1" "mNotify s' = mNotify ?s1" "mSessionID s' = mSessionID ?s1"
      by blast
    have bf: "binaryFrames ?buf =
       ((?buf ! 1, take (U16_AT ?buf 2) (drop 4 ?buf)) # fst (binaryFrames (mInBuffer ?s1)),
        snd (binaryFrames (mInBuffer ?s1)))"
      using True by (simp add: binaryFrames_complete)
    have n: "rtspPassNotifications Parse (mSessionID s) (clock w) ?buf =
       kWhatBinaryData (mSessionID s) (?buf ! 1) (take (U16_AT ?buf 2) (drop 4 ?buf)) (clock w 0) #
       rtspPassNotifications Parse (mSessionID s) (\<lambda>n. clock w (Suc n)) (mInBuffer ?s1)"
      unfolding rtspPassNotifications_def bf
      by (simp add: case_prod_unfold
          map_enumerate_Suc [of "\<lambda>k x. kWhatBinaryData (mSessionID s) (fst x) (snd x) (clock w k)",
            unfolded case_prod_unfold, symmetric])
    show ?thesis
      using r t o by (simp add: step n logEvent_def)
  next
    case False
    then have bf: "binaryFrames ?buf = ([], ?buf)"
      by (rule binaryFrames_none)
    show ?thesis
    proof (cases "startsBinary ?buf")
      case True
      then have "rtspLoop Parse err s w = Some (Inr (s, w))"
        using False by (intro rtspLoop_binary_incomplete) (auto simp: startsBinary_def)
      then show ?thesis
        using True by (simp add: rtspPassNotifications_def bf)
    next
      case nb: False
      show ?thesis
      proof (cases "Parse ?buf True")
        case None
        then have "rtspLoop Parse err s w = Some (Inr (s, w))"
          using nb assms(1) by (intro rtspLoop_parse_none) simp_all
        then show ?thesis
          using nb None by (simp add: rtspPassNotifications_def bf)
      next
        case (Some a)
        then obtain msg len where p: "Parse ?buf True = Some (msg, len)"
          by (cases a) auto
        with assms(2) have rg: "?buf \<noteq> []" "len \<le> length ?buf"
          by (auto simp: parserInRange_def)
        from idrAdjust_in_range [OF rg(2)] obtain len' where
          a: "idrAdjust (getContent msg) len ?buf = Inr len'" "len' \<le> length ?buf"
          by blast
        have "rtspLoop Parse err s w =
            Some (Inr (s\<lparr>mInBuffer := drop len' ?buf\<rparr>,
                     logEvent (Post (mNotify s) (kWhatData (mSessionID s) msg)) w))"
          using rtspLoop_parse_some [OF nb _ a(1) rg(1) a(2), of Parse err w] p assms(1)
          by simp
        then show ?thesis
          using nb p by (simp add: rtspPassNotifications_def bf logEvent_def)
      qed
    qed
  qed
qed

lemma errorPass_rtsp:
  "mIsRTSPConnection s \<Longrightarrow>
   errorPassNotifications Parse s clk = rtspPassNotifications Parse (mSessionID s) clk (mInBuffer s)"
  by (simp add: errorPassNotifications_def rtspPassNotifications_def)

lemma syscall_retry_final:
  "script w = r # rest \<Longrightarrow> \<not> (ret r < 0 \<and> errno r = EINTR) \<Longrightarrow>
   syscall_retry w = Inr (r, w\<lparr>script := rest\<rparr>)"
  by (auto simp: syscall_retry_def)

text \<open>
  Claim C10. When the \<^verbatim>\<open>recv\<close> of a stream session fails (negative, not
  \<^verbatim>\<open>EINTR\<close>) or returns zero bytes, \<open>readMore\<close> still decodes what is complete in the
  inbound buffer and posts it first: every complete length-prefixed frame on a non-RTSP
  session; on an RTSP session every leading \<open>$\<close>-interleaved binary frame and then at
  most one parsed RTSP message. Only afterwards it posts the \<open>kWhatError\<close>
  notification with \<open>send = false\<close> and sets the receive-failure flag, so that the
  session no longer wants to read. (The parser is taken not to report more consumed bytes
  than the buffer holds.)
\<close>

theorem error_notification_after_frames:
  assumes "mState s \<noteq> DATAGRAM" and "script w = r # rest"
    and "ret r \<le> 0" and "\<not> (ret r < 0 \<and> errno r = EINTR)" and "recvError r \<noteq> OK"
    and "mIsRTSPConnection s \<longrightarrow> parserInRange Parse"
  shows "\<exists>s' w'. readMore Parse s w = Inr ((recvError r, s'), w')
     \<and> trace w' = trace w @
          map (Post (mNotify s)) (errorPassNotifications Parse s (clock w)) @
          [Post (mNotify s) (kWhatError (mSessionID s) False (recvError r) ''Recv failed.'')]
     \<and> script w' = rest \<and> mSawReceiveFailure s' \<and> \<not> wantsToRead s'"
proof -
  let ?w1 = "w\<lparr>script := rest\<rparr>"
  have sc: "syscall_retry w = Inr (r, ?w1)"
    using assms(2,4) by (rule syscall_retry_final)
  have e: "(if ret r > 0 then OK else if ret r < 0 then - errno r else - ECONNRESET) = recvError r"
    "\<not> ret r > 0"
    using assms(3) by (auto simp: recvError_def)
  show ?thesis
  proof (cases "mIsRTSPConnection s")
    case False
    then show ?thesis
      using assms(1,5) e
      by (simp add: readMore_def io_defs sc Let_def lengthPrefixLoop_decodes
          errorPassNotifications_def wantsToRead_def)
  next
    case True
    with assms(6) have "parserInRange Parse" by simp
    from rtspLoop_error_pass [OF assms(5) this, of s ?w1] obtain s2 w2 where
      l: "rtspLoop Parse (recvError r) s ?w1 = Some (Inr (s2, w2))"
      and t: "trace w2 = trace ?w1 @
            map (Post (mNotify s)) (rtspPassNotifications Parse (mSessionID s) (clock ?w1) (mInBuffer s))"
      and o: "script w2 = script ?w1" "mNotify s2 = mNotify s" "mSessionID s2 = mSessionID s"
      by blast
    show ?thesis
      using assms(1,5) e True l t o
      by (simp add: readMore_def io_defs sc Let_def errorPass_rtsp wantsToRead_def)
  qed
qed

lemma parserInRange_sampleParse: "parserInRange sampleParse"
  by (auto simp: parserInRange_def sampleParse_def split: if_splits)

theorem error_notification_after_frames_witness:
  "(\<exists>s' w'. readMore sampleParse ((sampleSession CONNECTED True)\<lparr>mInBuffer := sampleRtspBuffer\<rparr>)
        (sampleWorld [sysResult 0 0]) = Inr ((- 104, s'), w')
      \<and> trace w' =
          [Post 0 (kWhatBinaryData 1 0 [0x41, 0x42, 0x43, 0x44] 1000000),
           Post 0 (kWhatData 1 (ParsedMessage (Some wfd_idr_request) [1, 2, 3, 4])),
           Post 0 (kWhatError 1 False (- 104) ''Recv failed.'')]
      \<and> mSawReceiveFailure s')
   \<and> (\<exists>s' w'. readMore sampleParse ((sampleSession CONNECTED False)\<lparr>mInBuffer := [0, 1, 7, 0, 0, 0]\<rparr>)
        (sampleWorld [sysResult (- 1) 32]) = Inr ((- 32, s'), w')
      \<and> trace w' =
          [Post 0 (kWhatDatagram 1 [7] None),
           Post 0 (kWhatDatagram 1 [] None),
           Post 0 (kWhatError 1 False (- 32) ''Recv failed.'')]
      \<and> mSawReceiveFailure s')"
proof -
  let ?s = "(sampleSession CONNECTED True)\<lparr>mInBuffer := sampleRtspBuffer\<rparr>"
  let ?t = "(sampleSession CONNECTED False)\<lparr>mInBuffer := [0, 1, 7, 0, 0, 0]\<rparr>"
  have n1: "errorPassNotifications sampleParse ?s (clock (sampleWorld [sysResult 0 0])) =
      [kWhatBinaryData 1 0 [0x41, 0x42, 0x43, 0x44] 1000000,
       kWhatData 1 (ParsedMessage (Some wfd_idr_request) [1, 2, 3, 4])]"
    by (simp add: errorPassNotifications_def sampleSession_def sampleRtspBuffer_def
        binaryFrames.simps U16_AT_def sampleWorld_def startsBinary_def sampleParse_def
        wfd_idr_request_def)
  have n2: "errorPassNotifications sampleParse ?t (clock (sampleWorld [sysResult (- 1) 32])) =
      [kWhatDatagram 1 [7] None, kWhatDatagram 1 [] None]"
    by (simp add: errorPassNotifications_def sampleSession_def decodeFrames.simps U16_AT_def)
  have a: "\<exists>s' w'. readMore sampleParse ?s (sampleWorld [sysResult 0 0]) = Inr ((- 104, s'), w')
      \<and> trace w' =
          [Post 0 (kWhatBinaryData 1 0 [0x41, 0x42, 0x43, 0x44] 1000000),
           Post 0 (kWhatData 1 (ParsedMessage (Some wfd_idr_request) [1, 2, 3, 4])),
           Post 0 (kWhatError 1 False (- 104) ''Recv failed.'')]
      \<and> mSawReceiveFailure s'"
    using error_notification_after_frames [of ?s "sampleWorld [sysResult 0 0]" "sysResult 0 0" "[]"
        sampleParse] parserInRange_sampleParse
    by (simp add: n1) (auto simp: sampleSession_def sampleWorld_def sysResult_def recvError_def
        ECONNRESET_def OK_def EINTR_def)
  have b: "\<exists>s' w'. readMore sampleParse ?t (sampleWorld [sysResult (- 1) 32]) = Inr ((- 32, s'), w')
      \<and> trace w' =
          [Post 0 (kWhatDatagram 1 [7] None),
           Post 0 (kWhatDatagram 1 [] None),
           Post 0 (kWhatError 1 False (- 32) ''Recv failed.'')]
      \<and> mSawReceiveFailure s'"
    using error_notification_after_frames [of ?t "sampleWorld [sysResult (- 1) 32]"
        "sysResult (- 1) 32" "[]" sampleParse]
    by (simp add: n2) (auto simp: sampleSession_def sampleWorld_def sysResult_def recvError_def
        ECONNRESET_def OK_def EINTR_def)
  show ?thesis
    using a b by blast
qed

lemma idrAdjust_quirk:
  assumes "take 17 c = wfd_idr_request" and "19 \<le> len"
    and "len + 1 < length buf" and "buf ! len = 0x0d" and "buf ! (len + 1) = 0x0a"
  shows "idrAdjust (Some c) len buf = Inr (len + 2)"
  using assms by (simp add: idrAdjust_def c_str_at_def)

lemma idrAdjust_short:
  assumes "len < 19"
  shows "idrAdjust content len buf = Inr len"
  using assms by (simp add: idrAdjust_def split: option.splits)

text \<open>
  Claim C4. The \<open>wfd_idr_request\<close> compatibility quirk. For an RTSP message parsed from
  the inbound buffer whose content begins with the 17 literal bytes
  \<open>wfd_idr_request\r\n\<close>: if the raw buffer holds \<open>\r\<close> at position \<open>length\<close> and \<open>\n\<close> at
  position \<open>length + 1\<close>, the framer advances \<open>length + 2\<close> bytes instead of \<open>length\<close>
  before it goes on decoding (or stops, after a failed \<^verbatim>\<open>recv\<close>). The code asks for
  \<^verbatim>\<open>length >= 19\<close> as well, which holds of every such message: the parser, which is
  not among the sources, is taken to report a consumed length that covers the content
  and the blank line before it (\<open>parserCoversContent\<close>), and the content has at least
  17 bytes.
\<close>

theorem wfd_idr_request_quirk:
  assumes "parserCoversContent Parse"
    and "\<not> startsBinary (mInBuffer s)"
    and "Parse (mInBuffer s) (err \<noteq> OK) = Some (msg, len)"
    and "getContent msg = Some c" and "take 17 c = wfd_idr_request"
    and "len + 1 < length (mInBuffer s)"
    and "mInBuffer s ! len = 0x0d" and "mInBuffer s ! (len + 1) = 0x0a"
  shows "idrAdjust (getContent msg) len (mInBuffer s) = Inr (len + 2)
     \<and> rtspLoop Parse err s w =
         (if err \<noteq> OK
          then Some (Inr (s\<lparr>mInBuffer := drop (len + 2) (mInBuffer s)\<rparr>,
                         logEvent (Post (mNotify s) (kWhatData (mSessionID s) msg)) w))
          else rtspLoop Parse err
                 (s\<lparr>mInBuffer := drop (len + 2) (mInBuffer s)\<rparr>)
                 (logEvent (Post (mNotify s) (kWhatData (mSessionID s) msg)) w))"
proof -
  have "length (take 17 c) = 17"
    unfolding assms(5) by (simp add: wfd_idr_request_def)
  then have "17 \<le> length c"
    by simp
  moreover have "length c + 2 \<le> len"
    using assms(1,3,4) unfolding parserCoversContent_def by blast
  ultimately have l: "19 \<le> len"
    by simp
  have a: "idrAdjust (getContent msg) len (mInBuffer s) = Inr (len + 2)"
    unfolding assms(4) using assms(5) l assms(6-8) by (rule idrAdjust_quirk)
  have b: "mInBuffer s \<noteq> []" "len + 2 \<le> length (mInBuffer s)"
    using assms(6) by auto
  have "rtspLoop Parse err s w =
         (if err \<noteq> OK
          then Some (Inr (s\<lparr>mInBuffer := drop (len + 2) (mInBuffer s)\<rparr>,
                         logEvent (Post (mNotify s) (kWhatData (mSessionID s) msg)) w))
          else rtspLoop Parse err
                 (s\<lparr>mInBuffer := drop (len + 2) (mInBuffer s)\<rparr>)
                 (logEvent (Post (mNotify s) (kWhatData (mSessionID s) msg)) w))"
    by (rule rtspLoop_parse_some [where len = len]) (fact assms(2) assms(3) a b)+
  with a show ?thesis by simp
qed

lemma parserCoversContent_sampleParse: "parserCoversContent sampleParse"
  by (auto simp: parserCoversContent_def sampleParse_def split: if_splits)

theorem wfd_idr_request_quirk_witness:
  "rtspLoop sampleParse OK
      ((sampleSession CONNECTED True)\<lparr>mInBuffer := [1, 2, 3, 4] @ wfd_idr_request @ [0x0d, 0x0a, 0x24]\<rparr>)
      (sampleWorld []) =
    Some (Inr ((sampleSession CONNECTED True)\<lparr>mInBuffer := [0x24]\<rparr>,
               (sampleWorld [])\<lparr>trace :=
                  [Post 0 (kWhatData 1 (ParsedMessage (Some wfd_idr_request) [1, 2, 3, 4]))]\<rparr>))"
proof -
  let ?s = "(sampleSession CONNECTED True)\<lparr>mInBuffer := [1, 2, 3, 4] @ wfd_idr_request @ [0x0d, 0x0a, 0x24]\<rparr>"
  let ?msg = "ParsedMessage (Some wfd_idr_request) [1, 2, 3, 4]"
  have p: "sampleParse (mInBuffer ?s) (OK \<noteq> OK) = Some (?msg, 21)"
    by (simp add: sampleParse_def sampleSession_def wfd_idr_request_def)
  have h: "\<not> startsBinary (mInBuffer ?s)" "getContent ?msg = Some wfd_idr_request"
    "take 17 wfd_idr_request = wfd_idr_request" "21 + 1 < length (mInBuffer ?s)"
    "mInBuffer ?s ! 21 = 0x0d" "mInBuffer ?s ! (21 + 1) = 0x0a"
    by (simp_all add: startsBinary_def sampleSession_def wfd_idr_request_def)
  have rest: "rtspLoop sampleParse OK ((sampleSession CONNECTED True)\<lparr>mInBuffer := [0x24]\<rparr>) w =
      Some (Inr ((sampleSession CONNECTED True)\<lparr>mInBuffer := [0x24]\<rparr>, w))" for w
    by (subst rtspLoop.simps) (simp add: sampleSession_def)
  have "rtspLoop sampleParse OK ?s (sampleWorld []) =
      rtspLoop sampleParse OK (?s\<lparr>mInBuffer := drop (21 + 2) (mInBuffer ?s)\<rparr>)
        (logEvent (Post (mNotify ?s) (kWhatData (mSessionID ?s) ?msg)) (sampleWorld []))"
    using wfd_idr_request_quirk [where s = ?s and Parse = sampleParse and err = OK and msg = ?msg
        and len = 21 and c = wfd_idr_request and w = "sampleWorld []"] p h
      parserCoversContent_sampleParse
    by simp
  also have "\<dots> = rtspLoop sampleParse OK ((sampleSession CONNECTED True)\<lparr>mInBuffer := [0x24]\<rparr>)
        ((sampleWorld [])\<lparr>trace := [Post 0 (kWhatData 1 ?msg)]\<rparr>)"
    by (simp add: sampleSession_def sampleWorld_def logEvent_def wfd_idr_request_def)
  finally show ?thesis
    by (simp add: rest)
qed

section \<open>The session map and the invariant of the engine\<close>

text \<open>
  Facts about the session map, about what the operations of a session and of the engine
  add to the trace, and the preservation of the invariant by every operation.
\<close>

lemma indexOfKey_None: "indexOfKey k kv = None \<longleftrightarrow> k \<notin> fst ` set kv"
  by (induction kv) (auto split: if_splits)

lemma indexOfKey_Some: "indexOfKey k kv = Some i \<Longrightarrow> i < length kv \<and> fst (kv ! i) = k"
  by (induction kv arbitrary: i) (auto split: if_splits)

lemma sessionsSorted_distinct: "sessionsSorted kv \<Longrightarrow> distinct (map fst kv)"
  unfolding sessionsSorted_def
  by (induction kv) auto

lemma removeItemsAt_keys:
  assumes "distinct (map fst kv)" and "i < length kv"
  shows "fst ` set (removeItemsAt i kv) = fst ` set kv - {fst (kv ! i)}"
proof -
  have "map fst kv = map fst (take i kv) @ fst (kv ! i) # map fst (drop (Suc i) kv)"
    using assms(2) by (metis Cons_nth_drop_Suc append_take_drop_id list.simps(9) map_append)
  with assms(1) have "distinct (map fst (take i kv) @ fst (kv ! i) # map fst (drop (Suc i) kv))"
    "set (map fst kv) = set (map fst (take i kv) @ fst (kv ! i) # map fst (drop (Suc i) kv))"
    by simp_all
  then show ?thesis
    by (auto simp: removeItemsAt_def image_Un)
qed

lemma sorted_wrt_remove_nth:
  assumes "sorted_wrt P xs"
  shows "sorted_wrt P (take i xs @ drop (Suc i) xs)"
proof -
  from assms have "sorted_wrt P (take i xs @ drop i xs)"
    by simp
  then have a: "sorted_wrt P (take i xs)" "\<forall>x\<in>set (take i xs). \<forall>y\<in>set (drop i xs). P x y"
    unfolding sorted_wrt_append by simp_all
  have b: "set (drop (Suc i) xs) \<subseteq> set (drop i xs)"
    by (rule set_drop_subset_set_drop) simp
  have c: "sorted_wrt P (drop (Suc i) xs)"
    using assms by (rule sorted_wrt_drop)
  show ?thesis
    unfolding sorted_wrt_append using a b c by blast
qed

lemma sessionsSorted_remove: "sessionsSorted kv \<Longrightarrow> sessionsSorted (removeItemsAt i kv)"
  unfolding sessionsSorted_def removeItemsAt_def by (rule sorted_wrt_remove_nth)

lemma syscall_retry_Inr:
  "syscall_retry w = Inr (r, w') \<Longrightarrow> trace w' = trace w \<and> clock w' = clock w"
  by (auto simp: syscall_retry_def split: option.splits)

lemma interrupt_Inr:
  "interrupt this w = Inr (x, w') \<Longrightarrow>
   trace w' = trace w @ [PipeWrite (snd (mPipeFd this))] \<and> clock w' = clock w"
  by (auto simp: interrupt_def io_defs split: sum.splits dest!: syscall_retry_Inr)

lemma destroySession_unknown:
  "sessionID \<notin> fst ` set (mSessions this) \<Longrightarrow>
   destroySession sessionID this w = Inr ((- ENOENT, this), w\<lparr>trace := trace w @ [Lock, Unlock]\<rparr>)"
  by (simp add: destroySession_def io_defs indexOfKey_None [symmetric])

lemma sendRequest_unknown:
  "sessionID \<notin> fst ` set (mSessions this) \<Longrightarrow>
   sendRequest sessionID data sz this w = Inr ((- ENOENT, this), w\<lparr>trace := trace w @ [Lock, Unlock]\<rparr>)"
  by (simp add: sendRequest_def io_defs indexOfKey_None [symmetric])

lemma connectUDPSession_unknown:
  "sessionID \<notin> fst ` set (mSessions this) \<Longrightarrow>
   connectUDPSession sessionID host port this w =
     Inr ((- ENOENT, this), w\<lparr>trace := trace w @ [Lock, Unlock]\<rparr>)"
  by (simp add: connectUDPSession_def io_defs indexOfKey_None [symmetric])

lemma destroySession_known:
  assumes "destroySession sessionID this w = Inr ((OK, this'), w')"
  obtains index where "indexOfKey sessionID (mSessions this) = Some index"
    "this' = this\<lparr>mSessions := removeItemsAt index (mSessions this)\<rparr>"
    "trace w' = trace w @ [Lock, Close (mSocket (valueAt index (mSessions this))),
        PipeWrite (snd (mPipeFd this)), Unlock]"
  using assms
  by (auto simp: destroySession_def io_defs Let_def OK_def ENOENT_def
      split: option.splits sum.splits dest!: interrupt_Inr)

lemma destroySession_removes:
  assumes "sessionsSorted (mSessions this)"
    and "destroySession sessionID this w = Inr ((OK, this'), w')"
  shows "sessionID \<notin> fst ` set (mSessions this')" "sessionsSorted (mSessions this')"
proof -
  from assms(2) obtain index where i: "indexOfKey sessionID (mSessions this) = Some index"
    and t: "this' = this\<lparr>mSessions := removeItemsAt index (mSessions this)\<rparr>"
    by (rule destroySession_known)
  from indexOfKey_Some [OF i] removeItemsAt_keys [OF sessionsSorted_distinct [OF assms(1)], of index]
  show "sessionID \<notin> fst ` set (mSessions this')"
    by (simp add: t)
  show "sessionsSorted (mSessions this')"
    using assms(1) by (simp add: t sessionsSorted_remove)
qed

lemma constructedIDs_append [simp]:
  "constructedIDs (xs @ ys) = constructedIDs xs @ constructedIDs ys"
  by (induction xs rule: constructedIDs.induct) auto

lemma constructedIDs_other: "(\<And>sid. ev \<noteq> Construct sid) \<Longrightarrow> constructedIDs (ev # tr) = constructedIDs tr"
  by (cases ev) auto

lemma constructedIDs_Posts [simp]: "constructedIDs (map (\<lambda>p. Post n (f p)) xs) = []"
  by (induction xs) auto

lemma quiet_refl [simp]: "quiet w w"
  by (simp add: quiet_def)

lemma quiet_trans: "quiet w w1 \<Longrightarrow> quiet w1 w2 \<Longrightarrow> quiet w w2"
  by (auto simp: quiet_def)

lemma quiet_eq_trace: "trace w' = trace w \<Longrightarrow> quiet w w'"
  by (simp add: quiet_def)

lemma quiet_update [simp]:
  "quiet w (w'\<lparr>script := x\<rparr>) = quiet w w'" "quiet w (w'\<lparr>clock := y\<rparr>) = quiet w w'"
  "quiet (w\<lparr>script := x\<rparr>) w' = quiet w w'" "quiet (w\<lparr>clock := y\<rparr>) w' = quiet w w'"
  by (simp_all add: quiet_def)

lemma quiet_log:
  "constructedIDs [ev] = [] \<Longrightarrow> quiet w w' \<Longrightarrow> quiet w (logEvent ev w')"
  by (auto simp: quiet_def logEvent_def)

lemma quiet_log_left:
  "constructedIDs [ev] = [] \<Longrightarrow> quiet (logEvent ev w) w' \<Longrightarrow> quiet w w'"
  by (cases ev) (auto simp: quiet_def logEvent_def)

lemma quiet_ids: "quiet w w' \<Longrightarrow> constructedIDs (trace w') = constructedIDs (trace w)"
  by (auto simp: quiet_def)

lemma syscall_quiet: "syscall w = Inr (r, w') \<Longrightarrow> quiet w w'"
  by (auto simp: syscall_def split: list.splits)

lemma syscall_retry_quiet: "syscall_retry w = Inr (r, w') \<Longrightarrow> quiet w w'"
  by (auto simp: syscall_retry_def split: option.splits)

lemma interrupt_quiet: "interrupt this w = Inr (x, w') \<Longrightarrow> quiet w w'"
  by (auto simp: quiet_def dest!: interrupt_Inr)

lemma lengthPrefixLoop_quiet:
  "lengthPrefixLoop s w = Inr (s', w') \<Longrightarrow> quiet w w' \<and> sameIdentity s s'"
  by (auto simp: lengthPrefixLoop_decodes quiet_def sameIdentity_def)

lemma quiet_Send_left:
  "quiet (w\<lparr>trace := trace w @ [Send a b]\<rparr>) w' \<Longrightarrow> quiet w w'"
  by (auto simp: quiet_def)

lemma sameIdentity_refl [simp]: "sameIdentity s s"
  by (simp add: sameIdentity_def)

lemma sameIdentity_update [simp]:
  "sameIdentity s (s'\<lparr>mInBuffer := a\<rparr>) = sameIdentity s s'"
  "sameIdentity (s\<lparr>mInBuffer := a\<rparr>) s' = sameIdentity s s'"
  "sameIdentity s (s'\<lparr>mOutBuffer := b\<rparr>) = sameIdentity s s'"
  "sameIdentity s (s'\<lparr>mOutDatagrams := c\<rparr>) = sameIdentity s s'"
  "sameIdentity s (s'\<lparr>mSawReceiveFailure := d\<rparr>) = sameIdentity s s'"
  "sameIdentity s (s'\<lparr>mSawSendFailure := e\<rparr>) = sameIdentity s s'"
  "sameIdentity s (s'\<lparr>mState := f\<rparr>) = sameIdentity s s'"
  by (simp_all add: sameIdentity_def)

lemma quiet_Post_left:
  "quiet (logEvent (Post n x) w) w' \<Longrightarrow> quiet w w'"
  "quiet (logEvent (Post n x) (w\<lparr>clock := c\<rparr>)) w' \<Longrightarrow> quiet w w'"
  by (auto simp: quiet_def logEvent_def)

lemma rtspLoop_quiet:
  assumes "rtspLoop Parse err s w = Some y"
  shows "case y of Inl e \<Rightarrow> True | Inr (s', w') \<Rightarrow> quiet w w' \<and> sameIdentity s s'"
  using assms
proof (induction rule: rtspLoop.raw_induct [rotated 1, consumes 1, case_names step])
  case (step loop Parse err s w y)
  show ?case
  proof (cases y)
    case (Inl e)
    then show ?thesis by simp
  next
    case (Inr p)
    then obtain s' w' where y: "y = Inr (s', w')"
      by (cases p) auto
    have ih: "quiet v w' \<and> sameIdentity t s'" if "loop P e t v = Some (Inr (s', w'))" for P e t v
      using step.IH [OF that] by simp
    from step.hyps [unfolded y] show ?thesis
      unfolding y
      by (auto simp: GetNowUs_def erase0_def quiet_log
          split: if_splits sum.splits option.splits prod.splits
          dest!: ih dest: quiet_Post_left)
  qed
qed

lemma recvfromLoop_quiet:
  "recvfromLoop s w = Inr (err, w') \<Longrightarrow> quiet w w'"
proof (induction "length (script w)" arbitrary: w rule: less_induct)
  case less
  from less.prems obtain r w1 where sc: "syscall_retry w = Inr (r, w1)"
    by (subst (asm) recvfromLoop.simps) (auto split: sum.splits)
  note q1 = syscall_retry_quiet [OF sc]
  note l1 = syscall_retry_shorter [OF sc]
  let ?w2 = "logEvent (Post (mNotify s)
                      (kWhatDatagram (mSessionID s) (take (nat (ret r)) (stored r))
                         (Some (clock w1 0, dottedQuad (sin_addr (address r)),
                                unat (sin_port (address r)))))) (w1\<lparr>clock := (\<lambda>n. clock w1 (Suc n))\<rparr>)"
  have l2: "length (script ?w2) < length (script w)"
    using l1 by (simp add: logEvent_def)
  have q2: "quiet w ?w2"
    using q1 by (auto simp: quiet_def logEvent_def)
  from less.prems have "w' = w1 \<or> recvfromLoop s w1 = Inr (err, w') \<or> recvfromLoop s ?w2 = Inr (err, w')"
    by (subst (asm) recvfromLoop.simps) (auto simp: sc GetNowUs_def split: if_splits)
  then show ?case
    using q1 q2 less.hyps [OF l1] less.hyps [OF l2] by (auto intro: quiet_trans)
qed

lemma notifyError_quiet: "notifyError b e d s w = Inr (x, w') \<Longrightarrow> quiet w w'"
  by (auto simp: notifyError_def emit_def quiet_def)

lemma readMore_quiet:
  assumes "readMore Parse s w = Inr ((err, s'), w')"
  shows "quiet w w' \<and> sameIdentity s s'"
proof (cases "mState s = DATAGRAM")
  case True
  with assms show ?thesis
    by (auto simp: readMore_def io_bind_def io_then_def io_return_def Let_def
        split: sum.splits if_splits
        dest!: recvfromLoop_quiet notifyError_quiet intro: quiet_trans)
next
  case False
  from assms False obtain r w1 s2 w2 where sc: "syscall_retry w = Inr (r, w1)"
    and lp: "(if \<not> mIsRTSPConnection s then lengthPrefixLoop (if ret r > 0 then s\<lparr>mInBuffer := mInBuffer s @ take (nat (ret r)) (stored r)\<rparr> else s) w1
              else (case rtspLoop Parse (if ret r > 0 then OK else if ret r < 0 then - errno r else - ECONNRESET)
                          (if ret r > 0 then s\<lparr>mInBuffer := mInBuffer s @ take (nat (ret r)) (stored r)\<rparr> else s) w1 of
                      None \<Rightarrow> Inl Diverges | Some x \<Rightarrow> x)) = Inr (s2, w2)"
    and fin: "quiet w2 w'" "sameIdentity s2 s'"
    by (auto simp: readMore_def io_bind_def io_then_def io_return_def Let_def
        split: sum.splits if_splits dest!: notifyError_quiet)
  let ?s1 = "if ret r > 0 then s\<lparr>mInBuffer := mInBuffer s @ take (nat (ret r)) (stored r)\<rparr> else s"
  have "quiet w1 w2 \<and> sameIdentity ?s1 s2"
  proof (cases "mIsRTSPConnection s")
    case True
    with lp obtain y where "rtspLoop Parse (if ret r > 0 then OK else if ret r < 0 then - errno r else - ECONNRESET) ?s1 w1 = Some y"
      "y = Inr (s2, w2)"
      by (auto split: option.splits)
    from rtspLoop_quiet [OF this(1)] this(2) show ?thesis by simp
  next
    case False
    with lp have "lengthPrefixLoop ?s1 w1 = Inr (s2, w2)" by simp
    from lengthPrefixLoop_quiet [OF this] show ?thesis by simp
  qed
  moreover have "sameIdentity s ?s1" by simp
  ultimately show ?thesis
    using syscall_retry_quiet [OF sc] fin
    by (auto intro: quiet_trans simp: sameIdentity_def)
qed

lemma datagramLoop_quiet:
  "datagramLoop fd q w = Inr (res, w') \<Longrightarrow> quiet w w'"
proof (induction "length (script w)" arbitrary: q w rule: less_induct)
  case less
  from less.prems obtain d ds data w1 r w2 where q: "q = d # ds"
    and st: "rtpStamp d w = Inr (data, w1)"
    and sc: "syscall_retry (logEvent (Send fd data) w1) = Inr (r, w2)"
    by (rule datagramLoop_Inr)
  have t1: "trace w1 = trace w" "script w1 = script w"
    using rtpStamp_trace [OF st] by simp_all
  have q2: "quiet w w2"
    using syscall_retry_trace [OF sc] by (simp add: quiet_def logEvent_def t1)
  have l2: "length (script w2) < length (script w)"
    using syscall_retry_shorter [OF sc] by (simp add: logEvent_def t1)
  from less.prems have "w' = w2 \<or> datagramLoop fd ds w2 = Inr (res, w')
      \<or> datagramLoop fd (data # ds) w2 = Inr (res, w')"
    unfolding q datagramLoop_step [OF st sc] by (auto split: if_splits)
  then show ?case
    using q2 less.hyps [OF l2] by (auto intro: quiet_trans)
qed

lemma writeMore_quiet:
  assumes "writeMore whatError s w = Inr ((err, s'), w')"
  shows "quiet w w' \<and> sameIdentity s s'"
  using assms
  by (auto simp: writeMore_def io_bind_def io_then_def io_return_def io_fail_def CHECK_def Let_def
        emit_def quiet_def [of _ "_\<lparr>trace := _\<rparr>"] erase0_def
        split: sum.splits if_splits prod.splits
        dest!: datagramLoop_quiet notifyError_quiet syscall_quiet syscall_retry_quiet
          quiet_Send_left
        intro: quiet_trans)

lemma Session_sendRequest_identity:
  "Session_sendRequest data sz s = Inr (err, s') \<Longrightarrow> sameIdentity s s'"
  by (auto simp: Session_sendRequest_def Let_def sameIdentity_def split: if_splits sum.splits)

lemma counterInv_quiet: "counterInv c w \<Longrightarrow> quiet w w' \<Longrightarrow> counterInv c w'"
  by (auto simp: counterInv_def dest!: quiet_ids)

lemma counterInv_construct:
  assumes "counterInv c w" and "trace w' = trace w @ Construct c # tr" and "constructedIDs tr = []"
  shows "counterInv (c + 1) w'"
proof -
  let ?n = "length (constructedIDs (trace w))"
  have c: "c = 1 + of_nat ?n" and l: "constructedIDs (trace w) = map of_nat [1..<Suc ?n]"
    using assms(1) by (simp_all add: counterInv_def)
  have t: "constructedIDs (trace w') = constructedIDs (trace w) @ [c]"
    by (simp add: assms(2,3))
  then have n: "length (constructedIDs (trace w')) = Suc ?n"
    by simp
  have "constructedIDs (trace w') = map of_nat [1..<Suc ?n] @ [of_nat (Suc ?n)]"
    using t l c by simp
  then show ?thesis
    unfolding counterInv_def n using c by simp
qed

lemma sessionsSorted_keys:
  "sessionsSorted kv \<longleftrightarrow> sorted_wrt (\<lambda>a b. sint a < sint b) (map fst kv)"
  by (simp add: sessionsSorted_def sorted_wrt_map)

lemma map_fst_update: "i < length kv \<Longrightarrow> fst (kv ! i) = k \<Longrightarrow> map fst (kv[i := (k, v)]) = map fst kv"
  by (simp add: map_update list_update_same_conv)

lemma insertSorted_set: "set (insertSorted k v kv) = insert (k, v) (set kv)"
  by (induction k v kv rule: insertSorted.induct) auto

lemma sint_inject: "sint (a :: int32) = sint b \<Longrightarrow> a = b"
  by (rule signed_word_eqI)

lemma insertSorted_sorted:
  "sessionsSorted kv \<Longrightarrow> k \<notin> fst ` set kv \<Longrightarrow> sessionsSorted (insertSorted k v kv)"
proof (induction kv)
  case Nil
  then show ?case by (simp add: sessionsSorted_def)
next
  case (Cons a kv)
  obtain k' v' where a: "a = (k', v')" by (cases a)
  have neq: "sint k \<noteq> sint k'"
    using Cons.prems(2) a by (auto dest: sint_inject)
  show ?case
  proof (cases "sint k < sint k'")
    case True
    with Cons.prems(1) show ?thesis
      unfolding a by (auto simp: sessionsSorted_def)
  next
    case False
    with neq have lt: "sint k' < sint k" by simp
    have "sessionsSorted (insertSorted k v kv)"
      using Cons by (simp add: sessionsSorted_def)
    with Cons.prems(1) lt False show ?thesis
      unfolding a by (auto simp: sessionsSorted_def insertSorted_set)
  qed
qed

lemma sessionsAdd_Inr:
  assumes "sessionsAdd k v kv w = Inr (kv', w')" and "sessionsSorted kv"
  shows "sessionsSorted kv' \<and> quiet w w' \<and> set kv' \<subseteq> insert (k, v) (set kv) \<and> (k, v) \<in> set kv'
    \<and> fst ` set kv' = insert k (fst ` set kv)"
proof (cases "indexOfKey k kv")
  case None
  then have k: "k \<notin> fst ` set kv" by (simp add: indexOfKey_None)
  from assms(1) None have r: "kv' = insertSorted k v kv" "w' = w"
    by (simp_all add: sessionsAdd_def io_return_def)
  show ?thesis
    using assms(2) k by (simp add: r insertSorted_sorted insertSorted_set)
next
  case (Some i)
  note ik = indexOfKey_Some [OF Some]
  from assms(1) Some have r: "kv' = kv[i := (k, v)]"
    and t: "trace w' = trace w @ [Close (mSocket (valueAt i kv))]"
    by (auto simp: sessionsAdd_def io_defs)
  have m: "map fst kv' = map fst kv"
    using ik by (simp add: r map_fst_update)
  have s: "sessionsSorted kv'" using assms(2) by (simp add: sessionsSorted_keys m)
  have q: "quiet w w'" using t by (simp add: quiet_def)
  have u: "set kv' \<subseteq> insert (k, v) (set kv)"
    unfolding r by (rule set_update_subset_insert)
  have i: "(k, v) \<in> set kv'"
    using ik by (simp add: r set_update_memI)
  have "fst ` set kv' = set (map fst kv')" by simp
  also have "\<dots> = fst ` set kv" by (simp add: m)
  also have "\<dots> = insert k (fst ` set kv)"
    using ik by (metis insert_absorb nth_mem image_eqI)
  finally have "fst ` set kv' = insert k (fst ` set kv)" .
  with s q u i show ?thesis by simp
qed

lemma newSession_Inr:
  assumes "newSession sid st fd n w = Inr (s, w')"
  shows "\<exists>tr. trace w' = trace w @ Construct sid # tr \<and> constructedIDs tr = []"
    "mSessionID s = sid" "mSocket s = fd" "mNotify s = n" "mState s = st"
  using assms
  by (auto simp: newSession_def io_defs Let_def syscall_def split: if_splits list.splits)

lemma syscall_trace: "syscall w = Inr (r, w') \<Longrightarrow> trace w' = trace w"
  by (auto simp: syscall_def split: list.splits)

lemma setSocketOptions_trace: "setSocketOptions mode w = Inr (r, w') \<Longrightarrow> trace w' = trace w"
  by (auto simp: setSocketOptions_def io_bind_def io_return_def
      split: if_splits sum.splits dest!: syscall_trace)

lemma MakeSocketNonBlocking_trace: "MakeSocketNonBlocking s w = Inr (r, w') \<Longrightarrow> trace w' = trace w"
  by (auto simp: MakeSocketNonBlocking_def io_bind_def io_return_def
      split: if_splits sum.splits dest!: syscall_trace)

lemma connectOrBind_trace: "connectOrBind mode rh w = Inr (r, w') \<Longrightarrow> trace w' = trace w"
  by (auto simp: connectOrBind_def io_bind_def io_return_def io_then_def CHECK_def io_fail_def
      split: if_splits sum.splits dest!: syscall_trace)

lemma socket_setup_trace:
  assumes "io_bind (setSocketOptions mode) (\<lambda>bail.
              if bail \<noteq> None then io_return bail
              else io_bind (MakeSocketNonBlocking fd) (\<lambda>err.
                if err \<noteq> OK then io_return (Some err)
                else connectOrBind mode remoteHost)) w = Inr (r, w')"
  shows "trace w' = trace w"
  using assms
  by (auto simp: io_bind_def io_return_def split: sum.splits if_splits
      dest!: setSocketOptions_trace MakeSocketNonBlocking_trace connectOrBind_trace)

lemma newSession_listening:
  assumes "st \<noteq> CONNECTED"
  shows "newSession sid st fd n w =
     Inr (\<lparr> mSessionID = sid, mState = st, mIsRTSPConnection = False,
                   mSocket = fd, mNotify = n, mSawReceiveFailure = False,
                   mSawSendFailure = False, mOutBuffer = [], mOutDatagrams = [],
                   mInBuffer = [] \<rparr>, w\<lparr>trace := trace w @ [Construct sid]\<rparr>)"
  using assms by (simp add: newSession_def io_defs)

lemma stateOfMode_not_connected: "stateOfMode mode \<noteq> CONNECTED"
  by (cases mode) (simp_all add: stateOfMode_def)

lemma closesOnly_ids: "closesOnly tr \<Longrightarrow> constructedIDs tr = []"
  by (induction tr) (auto simp: closesOnly_def)

lemma sessionsAdd_trace:
  "sessionsAdd k v kv w = Inr (kv', w') \<Longrightarrow> \<exists>tr. trace w' = trace w @ tr \<and> closesOnly tr"
  by (auto simp: sessionsAdd_def io_defs closesOnly_def split: option.splits)

lemma io_bind_Inr:
  "io_bind m f w = Inr (r, w') \<longleftrightarrow> (\<exists>x w1. m w = Inr (x, w1) \<and> f x w1 = Inr (r, w'))"
  by (auto simp: io_bind_def split: sum.splits)

lemma io_then_Inr:
  "io_then m k w = Inr (r, w') \<longleftrightarrow> (\<exists>w1. m w = Inr ((), w1) \<and> k w1 = Inr (r, w'))"
  by (auto simp: io_then_def io_bind_def split: sum.splits)

lemma emit_Inr: "emit ev w = Inr (x, w') \<longleftrightarrow> w' = w\<lparr>trace := trace w @ [ev]\<rparr>"
  by (auto simp: emit_def)

lemma io_return_Inr: "io_return x w = Inr (r, w') \<longleftrightarrow> r = x \<and> w' = w"
  by (auto simp: io_return_def)

lemma CHECK_Inr: "CHECK b w = Inr (x, w') \<longleftrightarrow> b \<and> w' = w"
  by (auto simp: CHECK_def io_return_def io_fail_def)

lemmas io_Inr = io_bind_Inr io_then_Inr emit_Inr io_return_Inr CHECK_Inr

lemma io_bindE:
  assumes "io_bind m f w = Inr (r, w')"
  obtains x w1 where "m w = Inr (x, w1)" and "f x w1 = Inr (r, w')"
  using assms by (auto simp: io_bind_Inr)

lemma io_thenE:
  assumes "io_then m k w = Inr (r, w')"
  obtains w1 where "m w = Inr ((), w1)" and "k w1 = Inr (r, w')"
  using assms by (auto simp: io_then_Inr)

lemma createClientOrServer_cases:
  assumes "createClientOrServer mode la port rh rp notify e w = Inr ((err, sid, e'), w')"
  shows "(e' = e \<and> sid = 0 \<and> (\<exists>tr. trace w' = trace w @ [Lock] @ tr @ [Unlock] \<and> closesOnly tr))
       \<or> (err = OK \<and> sid = mNextSessionID e
          \<and> (\<exists>session sessions w1 w2 tr.
                mSessionID session = sid \<and> mState session = stateOfMode mode
              \<and> sessionsAdd sid session (mSessions e) w1 = Inr (sessions, w2)
              \<and> e' = e\<lparr>mNextSessionID := mNextSessionID e + 1, mSessions := sessions\<rparr>
              \<and> closesOnly tr
              \<and> trace w' = trace w @ [Lock, Construct sid] @ tr @ [PipeWrite (snd (mPipeFd e)), Unlock]))"
proof -
  from assms obtain w0 sock w1 where w0: "w0 = w\<lparr>trace := trace w @ [Lock]\<rparr>"
    and s: "syscall w0 = Inr (sock, w1)"
    and r1: "(if ret sock < 0 then
         io_then (emit Unlock) (io_return (- errno sock, 0, e))
       else
         io_bind
           (io_bind (setSocketOptions mode) (\<lambda>bail.
              if bail \<noteq> None then io_return bail
              else io_bind (MakeSocketNonBlocking (ret sock)) (\<lambda>err.
                if err \<noteq> OK then io_return (Some err)
                else connectOrBind mode rh)))
           (\<lambda>bail.
              case bail of
                Some err \<Rightarrow>
                  io_then (emit (Close (ret sock)))
                 (io_then (emit Unlock)
                   (io_return (err, 0, e)))
              | None \<Rightarrow>
                  io_bind (newSession (mNextSessionID e) (stateOfMode mode) (ret sock) notify)
                    (\<lambda>session0.
                  let session =
                        (if mode = kModeCreateTCPDatagramSessionActive
                           then setIsRTSPConnection False session0
                         else if mode = kModeCreateRTSPClient
                           then setIsRTSPConnection True session0
                         else session0)
                  in io_bind (sessionsAdd (mSessionID session) session (mSessions e))
                    (\<lambda>sessions.
                  let this' = e\<lparr>mNextSessionID := mNextSessionID e + 1,
                                    mSessions := sessions\<rparr>
                  in io_then (interrupt this')
                    (io_then (emit Unlock)
                    (io_return (OK, mSessionID session, this'))))))) w1 = Inr ((err, sid, e'), w')"
    unfolding createClientOrServer_def
    by (elim io_thenE io_bindE) (simp add: emit_Inr)
  have t1: "trace w1 = trace w @ [Lock]"
    using syscall_trace [OF s] w0 by simp
  show ?thesis
  proof (cases "ret sock < 0")
    case True
    with r1 t1 have "e' = e \<and> sid = 0 \<and> trace w' = trace w @ [Lock] @ [] @ [Unlock]"
      by (auto simp: io_Inr)
    then show ?thesis
      by (metis closesOnly_def empty_iff list.set(1))
  next
    case False
    with r1 obtain bail w2 where b: "io_bind (setSocketOptions mode) (\<lambda>bail.
              if bail \<noteq> None then io_return bail
              else io_bind (MakeSocketNonBlocking (ret sock)) (\<lambda>err.
                if err \<noteq> OK then io_return (Some err)
                else connectOrBind mode rh)) w1 = Inr (bail, w2)"
      and rest: "(case bail of
                Some err \<Rightarrow>
                  io_then (emit (Close (ret sock)))
                 (io_then (emit Unlock)
                   (io_return (err, 0, e)))
              | None \<Rightarrow>
                  io_bind (newSession (mNextSessionID e) (stateOfMode mode) (ret sock) notify)
                    (\<lambda>session0.
                  let session =
                        (if mode = kModeCreateTCPDatagramSessionActive
                           then setIsRTSPConnection False session0
                         else if mode = kModeCreateRTSPClient
                           then setIsRTSPConnection True session0
                         else session0)
                  in io_bind (sessionsAdd (mSessionID session) session (mSessions e))
                    (\<lambda>sessions.
                  let this' = e\<lparr>mNextSessionID := mNextSessionID e + 1,
                                    mSessions := sessions\<rparr>
                  in io_then (interrupt this')
                    (io_then (emit Unlock)
                    (io_return (OK, mSessionID session, this')))))) w2 = Inr ((err, sid, e'), w')"
      by (simp only: if_False) (erule io_bindE)
    have t2: "trace w2 = trace w @ [Lock]"
      using socket_setup_trace [OF b] t1 by simp
    show ?thesis
    proof (cases bail)
      case (Some err')
      with rest t2 have "e' = e \<and> sid = 0 \<and> trace w' = trace w @ [Lock] @ [Close (ret sock)] @ [Unlock]"
        by (auto simp: io_Inr)
      then show ?thesis
        by (auto simp: closesOnly_def intro!: exI [of _ "[Close (ret sock)]"])
    next
      case None
      let ?session0 = "\<lparr> mSessionID = mNextSessionID e, mState = stateOfMode mode, mIsRTSPConnection = False,
                   mSocket = ret sock, mNotify = notify, mSawReceiveFailure = False,
                   mSawSendFailure = False, mOutBuffer = [], mOutDatagrams = [],
                   mInBuffer = [] \<rparr>"
      let ?session = "(if mode = kModeCreateTCPDatagramSessionActive
                           then setIsRTSPConnection False ?session0
                         else if mode = kModeCreateRTSPClient
                           then setIsRTSPConnection True ?session0
                         else ?session0)"
      let ?w3 = "w2\<lparr>trace := trace w2 @ [Construct (mNextSessionID e)]\<rparr>"
      let ?e' = "\<lambda>sessions. e\<lparr>mNextSessionID := mNextSessionID e + 1, mSessions := sessions\<rparr>"
      have id: "mSessionID ?session = mNextSessionID e" "mState ?session = stateOfMode mode"
        by (simp_all add: setIsRTSPConnection_def)
      from rest None have rest': "io_bind (sessionsAdd (mNextSessionID e) ?session (mSessions e))
                    (\<lambda>sessions.
                   io_then (interrupt (?e' sessions))
                    (io_then (emit Unlock)
                    (io_return (OK, mNextSessionID e, ?e' sessions)))) ?w3 = Inr ((err, sid, e'), w')"
        by (simp add: io_bind_Inr [of "newSession _ _ _ _"] Let_def
            newSession_listening [OF stateOfMode_not_connected] id)
      then obtain sessions w4 w5 where
        add: "sessionsAdd (mNextSessionID e) ?session (mSessions e) ?w3 = Inr (sessions, w4)"
        and i: "interrupt (?e' sessions) w4 = Inr ((), w5)"
        and r: "err = OK" "sid = mNextSessionID e" "e' = ?e' sessions" "trace w' = trace w5 @ [Unlock]"
        by (elim io_thenE io_bindE) (simp add: emit_Inr io_return_Inr)
      from sessionsAdd_trace [OF add] obtain tr where
        t4: "trace w4 = trace w @ [Lock, Construct (mNextSessionID e)] @ tr" and c: "closesOnly tr"
        using t2 by auto
      from interrupt_Inr [OF i] have t5: "trace w5 = trace w4 @ [PipeWrite (snd (mPipeFd e))]"
        by simp
      show ?thesis
        apply (rule disjI2)
        using r id add c t4 t5 by (auto intro!: exI [of _ ?session] exI [of _ sessions])
    qed
  qed
qed

lemma extends_refl [simp]: "extends w w"
  by (simp add: extends_def)

lemma extends_trans: "extends w w1 \<Longrightarrow> extends w1 w2 \<Longrightarrow> extends w w2"
  by (auto simp: extends_def)

lemma quiet_extends: "quiet w w' \<Longrightarrow> extends w w'"
  by (auto simp: quiet_def extends_def)

lemma extends_ids: "extends w w' \<Longrightarrow> set (constructedIDs (trace w)) \<subseteq> set (constructedIDs (trace w'))"
  by (auto simp: extends_def)

lemma acceptClient_inv:
  assumes "acceptClient session c w = Inr ((child, c'), w')" and "counterInv c w"
  shows "counterInv c' w' \<and> extends w w'
     \<and> (case child of None \<Rightarrow> c' = c \<and> quiet w w'
         | Some ch \<Rightarrow> mSessionID ch = c \<and> c' = c + 1
             \<and> constructedIDs (trace w') = constructedIDs (trace w) @ [c])"
proof -
  from assms(1) obtain acc w1 where a: "syscall w = Inr (acc, w1)"
    and r1: "(if ret acc \<ge> 0 then
         io_bind (MakeSocketNonBlocking (ret acc)) (\<lambda>err.
           if err \<noteq> OK then
             io_then (emit (Close (ret acc))) (io_return (None, c))
           else
             io_bind (newSession c CONNECTED (ret acc) (mNotify session)) (\<lambda>clientSession.
               io_return (Some (setIsRTSPConnection (isRTSPServer session) clientSession),
                          c + 1)))
       else io_return (None, c)) w1 = Inr ((child, c'), w')"
    unfolding acceptClient_def by (rule io_bindE)
  note t1 = syscall_trace [OF a]
  show ?thesis
  proof (cases "ret acc \<ge> 0")
    case False
    with r1 have "child = None" "c' = c" "w' = w1"
      by (simp_all add: io_return_Inr)
    with t1 assms(2) show ?thesis
      by (simp add: quiet_eq_trace counterInv_quiet extends_def)
  next
    case True
    with r1 obtain err w2 where m: "MakeSocketNonBlocking (ret acc) w1 = Inr (err, w2)"
      and r2: "(if err \<noteq> OK then
             io_then (emit (Close (ret acc))) (io_return (None, c))
           else
             io_bind (newSession c CONNECTED (ret acc) (mNotify session)) (\<lambda>clientSession.
               io_return (Some (setIsRTSPConnection (isRTSPServer session) clientSession),
                          c + 1))) w2 = Inr ((child, c'), w')"
      by (simp only: if_True) (erule io_bindE)
    note t2 = MakeSocketNonBlocking_trace [OF m]
    show ?thesis
    proof (cases "err \<noteq> OK")
      case True
      with r2 have "child = None" "c' = c" "trace w' = trace w @ [Close (ret acc)]"
        by (auto simp: io_Inr t1 t2)
      then have "child = None" "c' = c" "quiet w w'"
        by (simp_all add: quiet_def)
      with assms(2) show ?thesis
        by (simp add: counterInv_quiet quiet_extends)
    next
      case False
      with r2 obtain cs where n: "newSession c CONNECTED (ret acc) (mNotify session) w2 = Inr (cs, w')"
        and ch: "child = Some (setIsRTSPConnection (isRTSPServer session) cs)" and c': "c' = c + 1"
        by (auto simp: io_Inr)
      from newSession_Inr(1) [OF n] obtain tr where
        t: "trace w' = trace w @ Construct c # tr" and q: "constructedIDs tr = []"
        by (auto simp: t1 t2)
      from counterInv_construct [OF assms(2) t q] t q newSession_Inr(2) [OF n] ch c'
      show ?thesis
        by (simp add: setIsRTSPConnection_def extends_def)
    qed
  qed
qed

lemma engineInv_update:
  assumes "engineInv e" and "i < length (mSessions e)"
    and "mSessionID s' = mSessionID (valueAt i (mSessions e))"
  shows "engineInv (e\<lparr>mNextSessionID := c, mSessions := (mSessions e)[i := (fst (mSessions e ! i), s')]\<rparr>)"
    and "map fst ((mSessions e)[i := (fst (mSessions e ! i), s')]) = map fst (mSessions e)"
proof -
  let ?kv = "mSessions e"
  show m: "map fst (?kv[i := (fst (?kv ! i), s')]) = map fst ?kv"
    using assms(2) by (simp add: map_fst_update)
  have id: "mSessionID (snd (?kv ! i)) = fst (?kv ! i)"
    using assms(1,2) unfolding engineInv_def by (metis (mono_tags, lifting) case_prodD nth_mem prod.collapse)
  have "\<forall>(k, s)\<in>set (?kv[i := (fst (?kv ! i), s')]). mSessionID s = k"
  proof (clarify)
    fix k s assume "(k, s) \<in> set (?kv[i := (fst (?kv ! i), s')])"
    then have "(k, s) \<in> insert (fst (?kv ! i), s') (set ?kv)"
      using set_update_subset_insert by fastforce
    then show "mSessionID s = k"
      using assms(1,3) id unfolding engineInv_def valueAt_def by auto
  qed
  then show "engineInv (e\<lparr>mNextSessionID := c, mSessions := ?kv[i := (fst (?kv ! i), s')]\<rparr>)"
    using assms(1) m unfolding engineInv_def sessionsSorted_keys by simp
qed

lemma engineOK_extends:
  "extends w w' \<Longrightarrow> fst ` set (mSessions e) \<subseteq> set (constructedIDs (trace w))
   \<Longrightarrow> fst ` set (mSessions e) \<subseteq> set (constructedIDs (trace w'))"
  using extends_ids by blast

lemma staged_extends: "extends w w' \<Longrightarrow> staged toAdd w \<Longrightarrow> staged toAdd w'"
  unfolding staged_def using extends_ids by blast

lemma dispatch_inv:
  assumes "dispatch i Parse whatError rs ws res toAdd this w = Inr ((toAdd', this'), w')"
    and "i \<le> length (mSessions this)"
    and "engineOK this w" and "staged toAdd w"
  shows "engineOK this' w' \<and> staged toAdd' w' \<and> extends w w'
    \<and> map fst (mSessions this') = map fst (mSessions this)
    \<and> mPipeFd this' = mPipeFd this \<and> mThread this' = mThread this"
  using assms
proof (induction i arbitrary: res toAdd this w)
  case 0
  then show ?case by (simp add: dispatch.simps)
next
  case (Suc i)
  let ?session = "valueAt i (mSessions this)"
  let ?s = "mSocket ?session"
  let ?c = "mNextSessionID this"
  from Suc.prems(2) have i: "i \<le> length (mSessions this)" "i < length (mSessions this)"
    by simp_all
  from Suc.prems(3) have inv: "engineInv this" and cnt: "counterInv ?c w"
    and keys: "fst ` set (mSessions this) \<subseteq> set (constructedIDs (trace w))"
    by (simp_all add: engineOK_def)
  show ?case
  proof (cases "res > 0")
    case False
    with Suc.prems show ?thesis by (simp add: dispatch.simps)
  next
    case True
    note res = this
    show ?thesis
    proof (cases "?s < 0")
      case True
      with res Suc.prems(1) have "dispatch i Parse whatError rs ws res toAdd this w = Inr ((toAdd', this'), w')"
        by (simp add: dispatch.simps Let_def)
      from Suc.IH [OF this i(1) Suc.prems(3,4)] show ?thesis .
    next
      case False
      let ?res' = "if ?s \<in> set rs \<or> ?s \<in> set ws then res - 1 else res"
      let ?rd = "if ?s \<in> set rs then
                 (if isRTSPServer ?session \<or> isTCPDatagramServer ?session then
                    io_bind (acceptClient ?session ?c) (\<lambda>(child, nextID).
                      io_return (?session, nextID,
                        (case child of None \<Rightarrow> toAdd | Some c \<Rightarrow> toAdd @ [c])))
                  else
                    io_bind (readMore Parse ?session) (\<lambda>(err, session').
                      io_return (session', ?c, toAdd)))
               else io_return (?session, ?c, toAdd)"
      from res False Suc.prems(1) obtain session1 nextID toAdd1 w1 session2 w2 where
        rd: "?rd w = Inr ((session1, nextID, toAdd1), w1)"
        and wr: "(if ?s \<in> set ws then
                      io_bind (writeMore whatError session1) (\<lambda>(err, session'). io_return session')
                    else io_return session1) w1 = Inr (session2, w2)"
        and rec: "dispatch i Parse whatError rs ws ?res' toAdd1
                       (this\<lparr>mNextSessionID := nextID,
                             mSessions := (mSessions this)[i := (fst (mSessions this ! i), session2)]\<rparr>)
                       w2 = Inr ((toAdd', this'), w')"
        by (simp add: dispatch.simps Let_def split: sum.splits prod.splits)
      have r: "sameIdentity ?session session1 \<and> counterInv nextID w1 \<and> extends w w1 \<and> staged toAdd1 w1"
      proof (cases "?s \<in> set rs")
        case False
        with rd cnt Suc.prems(4) show ?thesis by (simp add: io_return_Inr)
      next
        case True
        note inrs = this
        show ?thesis
        proof (cases "isRTSPServer ?session \<or> isTCPDatagramServer ?session")
          case True
          with inrs rd obtain child where
            a: "acceptClient ?session ?c w = Inr ((child, nextID), w1)"
            and s1: "session1 = ?session"
            and ta: "toAdd1 = (case child of None \<Rightarrow> toAdd | Some c \<Rightarrow> toAdd @ [c])"
            by (auto simp: io_Inr)
          from acceptClient_inv [OF a cnt] have c1: "counterInv nextID w1" and e1: "extends w w1"
            and ch: "case child of None \<Rightarrow> True
                     | Some ch \<Rightarrow> mSessionID ch = ?c
                         \<and> constructedIDs (trace w1) = constructedIDs (trace w) @ [?c]"
            by (auto split: option.splits)
          have "staged toAdd1 w1"
            using staged_extends [OF e1 Suc.prems(4)] ch
            by (auto simp: ta staged_def split: option.splits)
          with c1 e1 s1 show ?thesis by simp
        next
          case False
          with inrs rd obtain err where
            a: "readMore Parse ?session w = Inr ((err, session1), w1)"
            and s1: "nextID = ?c" "toAdd1 = toAdd"
            by (auto simp: io_Inr)
          from readMore_quiet [OF a] cnt s1 Suc.prems(4) show ?thesis
            by (auto simp: counterInv_quiet quiet_extends intro: staged_extends [OF quiet_extends])
        qed
      qed
      have q: "sameIdentity session1 session2 \<and> quiet w1 w2"
      proof (cases "?s \<in> set ws")
        case False
        with wr show ?thesis by (simp add: io_return_Inr)
      next
        case True
        with wr obtain err where "writeMore whatError session1 w1 = Inr ((err, session2), w2)"
          by (auto simp: io_Inr)
        from writeMore_quiet [OF this] show ?thesis by simp
      qed
      let ?this1 = "this\<lparr>mNextSessionID := nextID,
                       mSessions := (mSessions this)[i := (fst (mSessions this ! i), session2)]\<rparr>"
      from r q have id: "mSessionID session2 = mSessionID ?session"
        by (simp add: sameIdentity_def)
      note u = engineInv_update [OF inv i(2) id]
      from r q have e2: "extends w w2"
        using extends_trans quiet_extends by blast
      have ok: "engineOK ?this1 w2"
        unfolding engineOK_def
      proof (intro conjI)
        show "engineInv ?this1" by (rule u(1))
        show "counterInv (mNextSessionID ?this1) w2"
          using r q by (auto intro: counterInv_quiet)
        have "fst ` set (mSessions ?this1) = fst ` set (mSessions this)"
          using u(2) by (metis (no_types, lifting) ANetworkSession.select_convs(2)
              ANetworkSession.surjective ANetworkSession.update_convs(1,2) set_map)
        then show "fst ` set (mSessions ?this1) \<subseteq> set (constructedIDs (trace w2))"
          using keys extends_ids [OF e2] by blast
      qed
      have st: "staged toAdd1 w2"
        using r q staged_extends quiet_extends by blast
      have len: "i \<le> length (mSessions ?this1)"
        using i by simp
      from Suc.IH [OF rec len ok st] u(2) e2 show ?thesis
        by (auto intro: extends_trans)
    qed
  qed
qed

lemma engineOK_quiet: "engineOK e w \<Longrightarrow> quiet w w' \<Longrightarrow> engineOK e w'"
  unfolding engineOK_def using counterInv_quiet quiet_ids by auto

lemma addSessions_inv:
  assumes "addSessions toAdd kv w = Inr (kv', w')"
    and "sessionsSorted kv" and "\<forall>(k, s)\<in>set kv. mSessionID s = k"
  shows "sessionsSorted kv' \<and> (\<forall>(k, s)\<in>set kv'. mSessionID s = k) \<and> quiet w w'
    \<and> fst ` set kv' = fst ` set kv \<union> mSessionID ` set toAdd"
  using assms
proof (induction toAdd arbitrary: kv w)
  case Nil
  then show ?case by simp
next
  case (Cons session rest)
  from Cons.prems(1) obtain kv1 w1 where
    a: "sessionsAdd (mSessionID session) session kv w = Inr (kv1, w1)"
    and r: "addSessions rest kv1 w1 = Inr (kv', w')"
    by (auto split: sum.splits)
  note s = sessionsAdd_Inr [OF a Cons.prems(2)]
  from s Cons.prems(3) have id: "\<forall>(k, s)\<in>set kv1. mSessionID s = k"
    by auto
  from s have "sessionsSorted kv1" by simp
  from Cons.IH [OF r this id] s show ?case
    by (auto intro: quiet_trans)
qed

lemma threadLoopSelect_quiet:
  assumes "threadLoopSelect this w = Inr (ready, w')"
  shows "quiet w w'"
proof -
  let ?w0 = "w\<lparr>trace := trace w @ [Lock, Unlock]\<rparr>"
  have q0: "quiet w ?w0" by (simp add: quiet_def)
  from assms have "quiet ?w0 w'"
    unfolding threadLoopSelect_def Let_def
    by (elim io_thenE io_bindE)
      (auto simp: io_Inr simp del: set_filter filter_set split: if_splits
        dest!: syscall_quiet syscall_retry_quiet intro: quiet_trans)
  with q0 show ?thesis by (rule quiet_trans)
qed

lemma threadLoopDispatch_inv:
  assumes "threadLoopDispatch Parse whatError ready this w = Inr (this', w')" and "engineOK this w"
  shows "engineOK this' w' \<and> extends w w' \<and> fst ` set (mSessions this) \<subseteq> fst ` set (mSessions this')
    \<and> mPipeFd this' = mPipeFd this \<and> mThread this' = mThread this"
proof -
  obtain res rs' ws' where ready: "ready = (res, rs', ws')"
    by (cases ready) auto
  let ?w3 = "w\<lparr>trace := trace w @ [Lock]\<rparr>"
  have q3: "quiet w ?w3"
    by (auto simp: quiet_def)
  from assms(1) obtain toAdd this1 w4 sessions w5 where
    d: "dispatch (length (mSessions this)) Parse whatError rs' ws' res [] this ?w3
          = Inr ((toAdd, this1), w4)"
    and a: "addSessions toAdd (mSessions this1) w4 = Inr (sessions, w5)"
    and e: "this' = this1\<lparr>mSessions := sessions\<rparr>" "trace w' = trace w5 @ [Unlock]"
    unfolding threadLoopDispatch_def ready prod.case
    by (elim io_thenE io_bindE) (auto simp: emit_Inr io_Inr)
  have ok3: "engineOK this ?w3"
    using assms(2) q3 by (rule engineOK_quiet)
  have "staged [] ?w3" by (simp add: staged_def)
  from dispatch_inv [OF d order_refl ok3 this]
  have ok4: "engineOK this1 w4" and st: "staged toAdd w4" and e4: "extends ?w3 w4"
    and k4: "map fst (mSessions this1) = map fst (mSessions this)"
    and f4: "mPipeFd this1 = mPipeFd this" "mThread this1 = mThread this"
    by simp_all
  from ok4 have "sessionsSorted (mSessions this1)" "\<forall>(k, s)\<in>set (mSessions this1). mSessionID s = k"
    by (simp_all add: engineOK_def engineInv_def)
  from addSessions_inv [OF a this]
  have s5: "sessionsSorted sessions" "\<forall>(k, s)\<in>set sessions. mSessionID s = k"
    and q5: "quiet w4 w5"
    and k5: "fst ` set sessions = fst ` set (mSessions this1) \<union> mSessionID ` set toAdd"
    by simp_all
  have q6: "quiet w4 w'"
    using q5 e(2) by (auto simp: quiet_def)
  have k1: "fst ` set (mSessions this1) = fst ` set (mSessions this)"
    using k4 by (metis set_map)
  have "engineOK this' w'"
    unfolding engineOK_def
  proof (intro conjI)
    show "engineInv this'"
      using s5 by (simp add: e engineInv_def)
    show "counterInv (mNextSessionID this') w'"
      using ok4 q6 by (auto simp: e engineOK_def intro: counterInv_quiet)
    show "fst ` set (mSessions this') \<subseteq> set (constructedIDs (trace w'))"
      using ok4 st k5 quiet_ids [OF q6] by (auto simp: e engineOK_def staged_def)
  qed
  moreover have "extends w w'"
    using quiet_extends [OF q3] e4 quiet_extends [OF q6] by (blast intro: extends_trans)
  ultimately show ?thesis
    using k5 k1 f4 by (auto simp: e)
qed

lemma threadLoop_inv:
  assumes "threadLoop Parse whatError this w = Inr (this', w')" and "engineOK this w"
  shows "engineOK this' w' \<and> extends w w' \<and> fst ` set (mSessions this) \<subseteq> fst ` set (mSessions this')
    \<and> mPipeFd this' = mPipeFd this \<and> mThread this' = mThread this"
proof -
  from assms(1) obtain ready w1 where s: "threadLoopSelect this w = Inr (ready, w1)"
    and r: "(case ready of None \<Rightarrow> io_return this
             | Some r \<Rightarrow> threadLoopDispatch Parse whatError r this) w1 = Inr (this', w')"
    unfolding threadLoop_def by (rule io_bindE)
  note q = threadLoopSelect_quiet [OF s]
  show ?thesis
  proof (cases ready)
    case None
    with r q assms(2) show ?thesis
      by (auto simp: io_return_Inr quiet_extends intro: engineOK_quiet)
  next
    case (Some rd)
    with r have "threadLoopDispatch Parse whatError rd this w1 = Inr (this', w')"
      by simp
    from threadLoopDispatch_inv [OF this engineOK_quiet [OF assms(2) q]] quiet_extends [OF q]
    show ?thesis
      by (auto intro: extends_trans)
  qed
qed

lemma engineOK_fields:
  "mNextSessionID e' = mNextSessionID e \<Longrightarrow> mSessions e' = mSessions e
   \<Longrightarrow> engineOK e' w = engineOK e w"
  by (simp add: engineOK_def engineInv_def)

lemma start_inv:
  assumes "start this w = Inr ((err, this'), w')" and "engineOK this w"
  shows "engineOK this' w'"
proof -
  from assms(1) have "quiet w w' \<and> mNextSessionID this' = mNextSessionID this
      \<and> mSessions this' = mSessions this"
    unfolding start_def
    by (auto simp: io_Inr quiet_def split: if_splits dest!: syscall_trace)
  with assms(2) show ?thesis
    using engineOK_fields engineOK_quiet by blast
qed

lemma stop_inv:
  assumes "stop this w = Inr ((err, this'), w')" and "engineOK this w"
  shows "engineOK this' w'"
proof -
  from assms(1) have "quiet w w' \<and> mNextSessionID this' = mNextSessionID this
      \<and> mSessions this' = mSessions this"
    unfolding stop_def
    by (auto simp: io_Inr quiet_def split: if_splits dest!: interrupt_Inr)
  with assms(2) show ?thesis
    using engineOK_fields engineOK_quiet by blast
qed

lemma destroySession_inv:
  assumes "destroySession sessionID this w = Inr ((err, this'), w')" and "engineOK this w"
  shows "engineOK this' w'"
proof (cases "indexOfKey sessionID (mSessions this)")
  case None
  with assms show ?thesis
    by (auto simp: destroySession_def io_Inr intro!: engineOK_quiet [of this w] simp: quiet_def)
next
  case (Some index)
  with assms(1) have e: "this' = this\<lparr>mSessions := removeItemsAt index (mSessions this)\<rparr>"
    and q: "quiet w w'"
    by (auto simp: destroySession_def io_Inr Let_def quiet_def dest!: interrupt_Inr)
  have "set (removeItemsAt index (mSessions this)) \<subseteq> set (mSessions this)"
    unfolding removeItemsAt_def
    by (metis Un_least set_append set_drop_subset set_take_subset)
  with assms(2) have "engineOK this' w"
    unfolding engineOK_def engineInv_def e
    by (auto simp: sessionsSorted_remove)
  then show ?thesis using q by (rule engineOK_quiet)
qed

lemma sendRequest_inv:
  assumes "sendRequest sessionID data sz this w = Inr ((err, this'), w')" and "engineOK this w"
  shows "engineOK this' w'"
proof (cases "indexOfKey sessionID (mSessions this)")
  case None
  with assms show ?thesis
    by (auto simp: sendRequest_def io_Inr intro!: engineOK_quiet [of this w] simp: quiet_def)
next
  case (Some index)
  with assms(1) obtain session where
    s: "Session_sendRequest data sz (valueAt index (mSessions this)) = Inr (err, session)"
    and e: "this' = this\<lparr>mSessions := (mSessions this)[index := (fst (mSessions this ! index), session)]\<rparr>"
    and q: "quiet w w'"
    by (auto simp: sendRequest_def io_Inr Let_def quiet_def io_fail_def
        split: sum.splits dest!: interrupt_Inr)
  from Session_sendRequest_identity [OF s]
  have id: "mSessionID session = mSessionID (valueAt index (mSessions this))"
    by (simp add: sameIdentity_def)
  from assms(2) have inv: "engineInv this" by (simp add: engineOK_def)
  note i = indexOfKey_Some [OF Some]
  note u = engineInv_update [OF inv conjunct1 [OF i] id]
  have "fst ` set (mSessions this') = fst ` set (mSessions this)"
    using u(2) unfolding e by (metis ANetworkSession.select_convs(2)
        ANetworkSession.surjective ANetworkSession.update_convs(2) set_map)
  with assms(2) u(1) [of 0] have "engineOK this' w"
    unfolding engineOK_def engineInv_def e by simp
  then show ?thesis using q by (rule engineOK_quiet)
qed

lemma connectUDPSession_Inr:
  assumes "connectUDPSession sessionID host port this w = Inr ((err, this'), w')"
  shows "this' = this \<and> trace w' = trace w @ [Lock, Unlock]"
  using assms unfolding connectUDPSession_def
  by (auto simp: io_Inr split: option.splits if_splits dest!: syscall_trace)

lemma connectUDPSession_inv:
  assumes "connectUDPSession sessionID host port this w = Inr ((err, this'), w')"
    and "engineOK this w"
  shows "engineOK this' w'"
  using connectUDPSession_Inr [OF assms(1)] assms(2)
  by (auto intro!: engineOK_quiet [of this w] simp: quiet_def)

lemma createClientOrServer_inv:
  assumes "createClientOrServer mode la port rh rp notify this w = Inr ((err, sid, this'), w')"
    and "engineOK this w"
  shows "engineOK this' w'"
proof -
  from createClientOrServer_cases [OF assms(1)] show ?thesis
  proof (elim disjE conjE exE)
    fix tr assume "this' = this" "trace w' = trace w @ [Lock] @ tr @ [Unlock]" "closesOnly tr"
    then have "this' = this" "quiet w w'"
      by (simp_all add: quiet_def closesOnly_ids)
    with assms(2) show ?thesis by (simp add: engineOK_quiet)
  next
    fix session sessions w1 w2 tr
    assume sid: "sid = mNextSessionID this" and id: "mSessionID session = sid"
      and add: "sessionsAdd sid session (mSessions this) w1 = Inr (sessions, w2)"
      and e: "this' = this\<lparr>mNextSessionID := mNextSessionID this + 1, mSessions := sessions\<rparr>"
      and c: "closesOnly tr"
      and t: "trace w' = trace w @ [Lock, Construct sid] @ tr @ [PipeWrite (snd (mPipeFd this)), Unlock]"
    from assms(2) have inv: "engineInv this" and cnt: "counterInv (mNextSessionID this) w"
      and keys: "fst ` set (mSessions this) \<subseteq> set (constructedIDs (trace w))"
      by (simp_all add: engineOK_def)
    let ?w1 = "w\<lparr>trace := trace w @ [Lock]\<rparr>"
    have q1: "quiet w ?w1" by (simp add: quiet_def)
    have t': "trace w' = trace ?w1 @ Construct (mNextSessionID this) #
        (tr @ [PipeWrite (snd (mPipeFd this)), Unlock])"
      by (simp add: t sid)
    have "constructedIDs (tr @ [PipeWrite (snd (mPipeFd this)), Unlock]) = []"
      using c by (simp add: closesOnly_ids)
    from counterInv_construct [OF counterInv_quiet [OF cnt q1] t' this]
    have c': "counterInv (mNextSessionID this') w'" by (simp add: e)
    from inv have "sessionsSorted (mSessions this)" by (simp add: engineInv_def)
    note s = sessionsAdd_Inr [OF add this]
    have i': "engineInv this'"
      using s inv id unfolding engineInv_def e by auto
    have ids: "constructedIDs (trace w') = constructedIDs (trace w) @ [sid]"
      using c by (simp add: t closesOnly_ids)
    have "fst ` set (mSessions this') \<subseteq> set (constructedIDs (trace w'))"
      using s keys unfolding ids e by auto
    with c' i' show ?thesis by (simp add: engineOK_def)
  qed
qed

lemmas engine_defs = createClientOrServer_def setSocketOptions_def MakeSocketNonBlocking_def
  connectOrBind_def newSession_def stateOfMode_def sessionsAdd_def interrupt_def
  destroySession_def sendRequest_def connectUDPSession_def
  io_defs syscall_def syscall_retry_def sysResult_def sampleWorld_def sampleEngine_def
  sampleSession_def valueAt_def removeItemsAt_def setIsRTSPConnection_def resolved_def
  Let_def OK_def ENOENT_def EINTR_def

lemma destroy_sample:
  "destroySession 1 sampleEngine (sampleWorld [sysResult 1 0]) =
     Inr ((OK, sampleEngine\<lparr>mSessions := []\<rparr>),
          \<lparr>script = [], clock = (\<lambda>n. 1000000 + of_nat n),
           trace = [Lock, Close 7, PipeWrite 4, Unlock]\<rparr>)"
  by (simp add: engine_defs)

lemma connect_sample:
  "connectUDPSession 1 ''sink'' 9 sampleEngine (sampleWorld [resolved 1, sysResult 0 0]) =
     Inr ((OK, sampleEngine),
          \<lparr>script = [], clock = (\<lambda>n. 1000000 + of_nat n), trace = [Lock, Unlock]\<rparr>)"
  by (simp add: engine_defs)

lemma Session_send_sample:
  "Session_sendRequest [1, 2] 2 (sampleSession DATAGRAM False) =
     Inr (OK, (sampleSession DATAGRAM False)\<lparr>mOutDatagrams := [[1, 2]]\<rparr>)"
  by (simp add: Session_sendRequest_def sampleSession_def memRead_def OK_def)

lemma send_sample:
  "sendRequest 1 [1, 2] 2 sampleEngine (sampleWorld [sysResult 1 0]) =
     Inr ((OK, sampleEngine\<lparr>mSessions :=
             [(1, (sampleSession DATAGRAM False)\<lparr>mOutDatagrams := [[1, 2]]\<rparr>)]\<rparr>),
          \<lparr>script = [], clock = (\<lambda>n. 1000000 + of_nat n),
           trace = [Lock, PipeWrite 4, Unlock]\<rparr>)"
  using Session_send_sample
  by (simp add: sendRequest_def sampleEngine_def valueAt_def)
    (simp add: engine_defs)

lemma create_sample:
  "createClientOrServer kModeCreateUDPSession None 0 None 0 5 sampleEngine
     (sampleWorld [sysResult 8 0, sysResult 0 0, sysResult 0 0, sysResult 0 0, sysResult 0 0,
        sysResult 0 0, sysResult 1 0]) =
     Inr ((OK, 2, sampleEngine\<lparr>mNextSessionID := 3, mSessions :=
             [(1, sampleSession DATAGRAM False),
              (2, \<lparr> mSessionID = 2, mState = DATAGRAM, mIsRTSPConnection = False,
                   mSocket = 8, mNotify = 5, mSawReceiveFailure = False,
                   mSawSendFailure = False, mOutBuffer = [], mOutDatagrams = [],
                   mInBuffer = [] \<rparr>)]\<rparr>),
          \<lparr>script = [], clock = (\<lambda>n. 1000000 + of_nat n),
           trace = [Lock, Construct 2, PipeWrite 4, Unlock]\<rparr>)"
  by (simp add: engine_defs)

section \<open>Unknown session IDs\<close>

text \<open>
  Claim C7. For a session ID that is not a key of the session map, \<open>destroySession\<close>
  and \<open>sendRequest\<close> return \<^verbatim>\<open>-ENOENT\<close> at once: no system call is issued (the
  script is untouched, the trace gains only the lock and its release) and the engine,
  so the session map, is unchanged. A \<open>destroySession\<close> that returns \<^verbatim>\<open>OK\<close> found
  its ID in the map and leaves a map without it, so that destroying the same ID again,
  in whatever world, returns \<^verbatim>\<open>-ENOENT\<close>. The map holds one entry per key
  (\<open>sessionsSorted\<close>), which every operation of the engine preserves.
\<close>

theorem unknown_session_not_found:
  "(sessionID \<notin> fst ` set (mSessions this) \<longrightarrow>
      destroySession sessionID this w =
        Inr ((- ENOENT, this), w\<lparr>trace := trace w @ [Lock, Unlock]\<rparr>)
      \<and> sendRequest sessionID data sz this w =
        Inr ((- ENOENT, this), w\<lparr>trace := trace w @ [Lock, Unlock]\<rparr>))
   \<and> (sessionsSorted (mSessions this)
        \<and> destroySession sessionID this w = Inr ((OK, this'), w') \<longrightarrow>
      sessionID \<in> fst ` set (mSessions this)
      \<and> sessionID \<notin> fst ` set (mSessions this')
      \<and> destroySession sessionID this' w2 =
        Inr ((- ENOENT, this'), w2\<lparr>trace := trace w2 @ [Lock, Unlock]\<rparr>))"
proof (intro conjI impI)
  assume "sessionID \<notin> fst ` set (mSessions this)"
  then show "destroySession sessionID this w =
        Inr ((- ENOENT, this), w\<lparr>trace := trace w @ [Lock, Unlock]\<rparr>)"
    and "sendRequest sessionID data sz this w =
        Inr ((- ENOENT, this), w\<lparr>trace := trace w @ [Lock, Unlock]\<rparr>)"
    by (rule destroySession_unknown, rule sendRequest_unknown)
next
  assume a: "sessionsSorted (mSessions this)
        \<and> destroySession sessionID this w = Inr ((OK, this'), w')"
  then obtain index where "indexOfKey sessionID (mSessions this) = Some index"
    by (auto elim: destroySession_known)
  then show "sessionID \<in> fst ` set (mSessions this)"
    using indexOfKey_None [of sessionID "mSessions this"] by auto
  from a show n: "sessionID \<notin> fst ` set (mSessions this')"
    by (auto dest: destroySession_removes(1))
  then show "destroySession sessionID this' w2 =
        Inr ((- ENOENT, this'), w2\<lparr>trace := trace w2 @ [Lock, Unlock]\<rparr>)"
    by (rule destroySession_unknown)
qed

theorem unknown_session_not_found_witness:
  "destroySession 9 sampleEngine (sampleWorld []) =
     Inr ((- 2, sampleEngine), \<lparr>script = [], clock = (\<lambda>n. 1000000 + of_nat n),
                                trace = [Lock, Unlock]\<rparr>)
   \<and> sendRequest 9 [1, 2] 2 sampleEngine (sampleWorld []) =
     Inr ((- 2, sampleEngine), \<lparr>script = [], clock = (\<lambda>n. 1000000 + of_nat n),
                                trace = [Lock, Unlock]\<rparr>)
   \<and> destroySession 1 sampleEngine (sampleWorld [sysResult 1 0]) =
     Inr ((0, sampleEngine\<lparr>mSessions := []\<rparr>),
          \<lparr>script = [], clock = (\<lambda>n. 1000000 + of_nat n),
           trace = [Lock, Close 7, PipeWrite 4, Unlock]\<rparr>)
   \<and> destroySession 1 (sampleEngine\<lparr>mSessions := []\<rparr>) (sampleWorld []) =
     Inr ((- 2, sampleEngine\<lparr>mSessions := []\<rparr>),
          \<lparr>script = [], clock = (\<lambda>n. 1000000 + of_nat n), trace = [Lock, Unlock]\<rparr>)"
proof -
  have k: "(9 :: int32) \<notin> fst ` set (mSessions sampleEngine)"
    by (simp add: sampleEngine_def)
  have s: "sessionsSorted (mSessions sampleEngine)"
    by (simp add: sampleEngine_def sessionsSorted_def)
  note d = destroy_sample
  from unknown_session_not_found [of 9 sampleEngine "sampleWorld []" "[1, 2]" 2] k
  have "destroySession 9 sampleEngine (sampleWorld []) =
     Inr ((- 2, sampleEngine), \<lparr>script = [], clock = (\<lambda>n. 1000000 + of_nat n),
                                trace = [Lock, Unlock]\<rparr>)
   \<and> sendRequest 9 [1, 2] 2 sampleEngine (sampleWorld []) =
     Inr ((- 2, sampleEngine), \<lparr>script = [], clock = (\<lambda>n. 1000000 + of_nat n),
                                trace = [Lock, Unlock]\<rparr>)"
    by (simp add: sampleWorld_def ENOENT_def)
  moreover
  from unknown_session_not_found [of 1 sampleEngine "sampleWorld [sysResult 1 0]" _ _
      "sampleEngine\<lparr>mSessions := []\<rparr>" _ "sampleWorld []"] s d
  have "destroySession 1 (sampleEngine\<lparr>mSessions := []\<rparr>) (sampleWorld []) =
     Inr ((- 2, sampleEngine\<lparr>mSessions := []\<rparr>),
          \<lparr>script = [], clock = (\<lambda>n. 1000000 + of_nat n), trace = [Lock, Unlock]\<rparr>)"
    by (simp add: sampleWorld_def ENOENT_def OK_def)
  ultimately show ?thesis
    using d by (simp add: OK_def)
qed

section \<open>The wake pipe\<close>

lemma interrupt_returns:
  assumes "skipEINTR (script w) = Some (r, rest)"
  shows "interrupt this w =
     Inr ((), w\<lparr>script := rest, trace := trace w @ [PipeWrite (snd (mPipeFd this))]\<rparr>)"
  using assms by (simp add: interrupt_def io_defs syscall_retry_def)

lemma sendRequest_known:
  assumes "indexOfKey sessionID (mSessions this) = Some index"
  shows "Session_sendRequest data sz (valueAt index (mSessions this)) = Inl f \<Longrightarrow>
           sendRequest sessionID data sz this w = Inl f"
    and "Session_sendRequest data sz (valueAt index (mSessions this)) = Inr (err, session) \<Longrightarrow>
         skipEINTR (script w) = Some (r, rest) \<Longrightarrow>
           sendRequest sessionID data sz this w =
             Inr ((err, this\<lparr>mSessions := (mSessions this)[index := (sessionID, session)]\<rparr>),
                  w\<lparr>script := rest,
                    trace := trace w @ [Lock, PipeWrite (snd (mPipeFd this)), Unlock]\<rparr>)"
  using assms indexOfKey_Some [OF assms]
  by (simp_all add: sendRequest_def io_defs interrupt_returns Let_def)

lemma destroySession_returns:
  assumes "indexOfKey sessionID (mSessions this) = Some index"
    and "skipEINTR (script w) = Some (r, rest)"
  shows "destroySession sessionID this w =
     Inr ((OK, this\<lparr>mSessions := removeItemsAt index (mSessions this)\<rparr>),
          w\<lparr>script := rest,
            trace := trace w @ [Lock, Close (mSocket (valueAt index (mSessions this))),
              PipeWrite (snd (mPipeFd this)), Unlock]\<rparr>)"
  using assms by (simp add: destroySession_def io_defs interrupt_returns Let_def)

text \<open>
  Claim C3, as the code has it. Every control operation takes the engine mutex first and
  holds it until it returns. A session creation that returns with its session has
  constructed it, added it to the map and then written to the pipe before releasing the
  mutex; one that returns without a session (no socket, or a failure while setting the
  socket up) has changed nothing and has not written to the pipe. \<open>sendRequest\<close> and
  \<open>destroySession\<close> with an ID that is not in the map return \<^verbatim>\<open>-ENOENT\<close> and have not
  written to the pipe. With an ID of the map, and a \<^verbatim>\<open>write\<close> to the pipe that
  returns, \<open>destroySession\<close> removes the session, writes to the pipe, releases the mutex
  and returns \<^verbatim>\<open>OK\<close>; \<open>sendRequest\<close> hands the data to the session and, if the
  session's \<open>sendRequest\<close> returns, files the changed session, writes to the pipe,
  releases the mutex and returns the session's result; if the session's
  \<open>sendRequest\<close> fails one of its checks, the call does not return: the process aborts
  before the write to the pipe. \<open>connectUDPSession\<close> never writes to the pipe and leaves
  the engine as it was: between taking and releasing the mutex it only resolves the host
  and connects the socket.
\<close>

theorem control_operations_wake_loop:
  "(createClientOrServer mode localAddr port remoteHost remotePort notify this w
        = Inr ((err, sid, this1), w1) \<longrightarrow>
      (this1 = this \<and> sid = 0
        \<and> (\<exists>tr. trace w1 = trace w @ [Lock] @ tr @ [Unlock] \<and> closesOnly tr))
      \<or> (err = OK \<and> sid = mNextSessionID this
        \<and> (\<exists>sessions. this1 = this\<lparr>mNextSessionID := mNextSessionID this + 1,
                                     mSessions := sessions\<rparr>
              \<and> sid \<in> fst ` set sessions)
        \<and> (\<exists>tr. trace w1 = trace w @ [Lock, Construct sid] @ tr
                     @ [PipeWrite (snd (mPipeFd this)), Unlock] \<and> closesOnly tr)))
   \<and> (sessionID \<notin> fst ` set (mSessions this) \<longrightarrow>
        sendRequest sessionID data sz this w =
          Inr ((- ENOENT, this), w\<lparr>trace := trace w @ [Lock, Unlock]\<rparr>)
      \<and> destroySession sessionID this w =
          Inr ((- ENOENT, this), w\<lparr>trace := trace w @ [Lock, Unlock]\<rparr>))
   \<and> (indexOfKey sessionID (mSessions this) = Some index
        \<and> Session_sendRequest data sz (valueAt index (mSessions this)) = Inl f \<longrightarrow>
        sendRequest sessionID data sz this w = Inl f)
   \<and> (indexOfKey sessionID (mSessions this) = Some index
        \<and> Session_sendRequest data sz (valueAt index (mSessions this)) = Inr (err2, session)
        \<and> skipEINTR (script w) = Some (r, rest) \<longrightarrow>
        sendRequest sessionID data sz this w =
          Inr ((err2, this\<lparr>mSessions := (mSessions this)[index := (sessionID, session)]\<rparr>),
               w\<lparr>script := rest,
                 trace := trace w @ [Lock, PipeWrite (snd (mPipeFd this)), Unlock]\<rparr>))
   \<and> (indexOfKey sessionID (mSessions this) = Some index
        \<and> skipEINTR (script w) = Some (r, rest) \<longrightarrow>
        destroySession sessionID this w =
          Inr ((OK, this\<lparr>mSessions := removeItemsAt index (mSessions this)\<rparr>),
               w\<lparr>script := rest,
                 trace := trace w @ [Lock, Close (mSocket (valueAt index (mSessions this))),
                   PipeWrite (snd (mPipeFd this)), Unlock]\<rparr>))
   \<and> (connectUDPSession sessionID host remotePort this w = Inr ((err4, this4), w4) \<longrightarrow>
      this4 = this \<and> trace w4 = trace w @ [Lock, Unlock])"
proof (intro conjI impI)
  assume "createClientOrServer mode localAddr port remoteHost remotePort notify this w
        = Inr ((err, sid, this1), w1)"
  from createClientOrServer_cases [OF this]
  show "(this1 = this \<and> sid = 0
        \<and> (\<exists>tr. trace w1 = trace w @ [Lock] @ tr @ [Unlock] \<and> closesOnly tr))
      \<or> (err = OK \<and> sid = mNextSessionID this
        \<and> (\<exists>sessions. this1 = this\<lparr>mNextSessionID := mNextSessionID this + 1,
                                     mSessions := sessions\<rparr>
              \<and> sid \<in> fst ` set sessions)
        \<and> (\<exists>tr. trace w1 = trace w @ [Lock, Construct sid] @ tr
                     @ [PipeWrite (snd (mPipeFd this)), Unlock] \<and> closesOnly tr))"
  proof (elim disjE conjE exE)
    fix tr assume "this1 = this" "sid = 0" "trace w1 = trace w @ [Lock] @ tr @ [Unlock]"
      "closesOnly tr"
    then show ?thesis by blast
  next
    fix session sessions wa wb tr
    assume 1: "err = OK" "sid = mNextSessionID this"
      and add: "sessionsAdd sid session (mSessions this) wa = Inr (sessions, wb)"
      and 2: "this1 = this\<lparr>mNextSessionID := mNextSessionID this + 1, mSessions := sessions\<rparr>"
      and 3: "closesOnly tr" "trace w1 = trace w @ [Lock, Construct sid] @ tr
                     @ [PipeWrite (snd (mPipeFd this)), Unlock]"
    from add have "sid \<in> fst ` set sessions"
      by (auto simp: sessionsAdd_def io_Inr insertSorted_set split: option.splits
          dest!: indexOfKey_Some intro!: image_eqI [of _ fst "(sid, session)"]
          simp: set_update_memI)
    with 1 2 3 show ?thesis by blast
  qed
next
  assume "sessionID \<notin> fst ` set (mSessions this)"
  then show "sendRequest sessionID data sz this w =
          Inr ((- ENOENT, this), w\<lparr>trace := trace w @ [Lock, Unlock]\<rparr>)"
    and "destroySession sessionID this w =
          Inr ((- ENOENT, this), w\<lparr>trace := trace w @ [Lock, Unlock]\<rparr>)"
    by (rule sendRequest_unknown, rule destroySession_unknown)
next
  assume "indexOfKey sessionID (mSessions this) = Some index
        \<and> Session_sendRequest data sz (valueAt index (mSessions this)) = Inl f"
  then show "sendRequest sessionID data sz this w = Inl f"
    by (auto intro: sendRequest_known(1))
next
  assume "indexOfKey sessionID (mSessions this) = Some index
        \<and> Session_sendRequest data sz (valueAt index (mSessions this)) = Inr (err2, session)
        \<and> skipEINTR (script w) = Some (r, rest)"
  then show "sendRequest sessionID data sz this w =
          Inr ((err2, this\<lparr>mSessions := (mSessions this)[index := (sessionID, session)]\<rparr>),
               w\<lparr>script := rest,
                 trace := trace w @ [Lock, PipeWrite (snd (mPipeFd this)), Unlock]\<rparr>)"
    by (auto intro: sendRequest_known(2))
next
  assume "indexOfKey sessionID (mSessions this) = Some index
        \<and> skipEINTR (script w) = Some (r, rest)"
  then show "destroySession sessionID this w =
          Inr ((OK, this\<lparr>mSessions := removeItemsAt index (mSessions this)\<rparr>),
               w\<lparr>script := rest,
                 trace := trace w @ [Lock, Close (mSocket (valueAt index (mSessions this))),
                   PipeWrite (snd (mPipeFd this)), Unlock]\<rparr>)"
    by (auto intro: destroySession_returns)
next
  assume "connectUDPSession sessionID host remotePort this w = Inr ((err4, this4), w4)"
  from connectUDPSession_Inr [OF this]
  show "this4 = this" "trace w4 = trace w @ [Lock, Unlock]"
    by simp_all
qed

lemma Session_send_abort_sample:
  "Session_sendRequest [1, 2] (- 1) (sampleSession DATAGRAM False) = Inl CheckFailed"
  by (simp add: Session_sendRequest_def sampleSession_def)

theorem control_operations_wake_loop_witness:
  "createClientOrServer kModeCreateUDPSession None 0 None 0 5 sampleEngine
     (sampleWorld [sysResult 8 0, sysResult 0 0, sysResult 0 0, sysResult 0 0, sysResult 0 0,
        sysResult 0 0, sysResult 1 0]) =
     Inr ((0, 2, sampleEngine\<lparr>mNextSessionID := 3, mSessions :=
             [(1, sampleSession DATAGRAM False),
              (2, \<lparr> mSessionID = 2, mState = DATAGRAM, mIsRTSPConnection = False,
                   mSocket = 8, mNotify = 5, mSawReceiveFailure = False,
                   mSawSendFailure = False, mOutBuffer = [], mOutDatagrams = [],
                   mInBuffer = [] \<rparr>)]\<rparr>),
          \<lparr>script = [], clock = (\<lambda>n. 1000000 + of_nat n),
           trace = [Lock, Construct 2, PipeWrite 4, Unlock]\<rparr>)
   \<and> sendRequest 9 [1, 2] 2 sampleEngine (sampleWorld [sysResult 1 0]) =
     Inr ((- 2, sampleEngine),
          \<lparr>script = [sysResult 1 0], clock = (\<lambda>n. 1000000 + of_nat n),
           trace = [Lock, Unlock]\<rparr>)
   \<and> destroySession 9 sampleEngine (sampleWorld [sysResult 1 0]) =
     Inr ((- 2, sampleEngine),
          \<lparr>script = [sysResult 1 0], clock = (\<lambda>n. 1000000 + of_nat n),
           trace = [Lock, Unlock]\<rparr>)
   \<and> sendRequest 1 [1, 2] (- 1) sampleEngine (sampleWorld [sysResult 1 0]) = Inl CheckFailed
   \<and> sendRequest 1 [1, 2] 2 sampleEngine (sampleWorld [sysResult 1 0]) =
     Inr ((0, sampleEngine\<lparr>mSessions :=
             [(1, (sampleSession DATAGRAM False)\<lparr>mOutDatagrams := [[1, 2]]\<rparr>)]\<rparr>),
          \<lparr>script = [], clock = (\<lambda>n. 1000000 + of_nat n),
           trace = [Lock, PipeWrite 4, Unlock]\<rparr>)
   \<and> destroySession 1 sampleEngine (sampleWorld [sysResult 1 0]) =
     Inr ((0, sampleEngine\<lparr>mSessions := []\<rparr>),
          \<lparr>script = [], clock = (\<lambda>n. 1000000 + of_nat n),
           trace = [Lock, Close 7, PipeWrite 4, Unlock]\<rparr>)
   \<and> connectUDPSession 1 ''sink'' 9 sampleEngine (sampleWorld [resolved 1, sysResult 0 0]) =
     Inr ((0, sampleEngine),
          \<lparr>script = [], clock = (\<lambda>n. 1000000 + of_nat n), trace = [Lock, Unlock]\<rparr>)"
proof -
  let ?w = "sampleWorld [sysResult 1 0]"
  have k: "(9 :: int32) \<notin> fst ` set (mSessions sampleEngine)"
    and i: "indexOfKey 1 (mSessions sampleEngine) = Some 0"
    and v: "valueAt 0 (mSessions sampleEngine) = sampleSession DATAGRAM False"
    and p: "snd (mPipeFd sampleEngine) = 4"
    by (simp_all add: sampleEngine_def valueAt_def)
  have e: "skipEINTR (script ?w) = Some (sysResult 1 0, [])"
    by (simp add: sampleWorld_def sysResult_def)
  note s = Session_send_sample [folded v] and f = Session_send_abort_sample [folded v]
  note c = create_sample and u = connect_sample
  note t = control_operations_wake_loop [where this = sampleEngine and w = ?w]
  note t1 = control_operations_wake_loop [THEN conjunct1, rule_format, OF c]
  note t2 = t [where sessionID = 9 and data = "[1, 2]" and sz = 2,
      THEN conjunct2, THEN conjunct1, rule_format, OF k]
  note t3 = t [where sessionID = 1, THEN conjunct2, THEN conjunct2, THEN conjunct1, rule_format,
      OF conjI [OF i f]]
  note t4 = t [where sessionID = 1, THEN conjunct2, THEN conjunct2, THEN conjunct2,
      THEN conjunct1, rule_format, OF conjI [OF i conjI [OF s e]]]
  note t5 = t [where sessionID = 1, THEN conjunct2, THEN conjunct2, THEN conjunct2,
      THEN conjunct2, THEN conjunct1, rule_format, OF conjI [OF i e]]
  note t6 = control_operations_wake_loop [THEN conjunct2, THEN conjunct2, THEN conjunct2,
      THEN conjunct2, THEN conjunct2, rule_format, OF u]
  have a2: "sendRequest 9 [1, 2] 2 sampleEngine ?w =
     Inr ((- 2, sampleEngine),
          \<lparr>script = [sysResult 1 0], clock = (\<lambda>n. 1000000 + of_nat n),
           trace = [Lock, Unlock]\<rparr>)"
    and a3: "destroySession 9 sampleEngine ?w =
     Inr ((- 2, sampleEngine),
          \<lparr>script = [sysResult 1 0], clock = (\<lambda>n. 1000000 + of_nat n),
           trace = [Lock, Unlock]\<rparr>)"
    using t2 by (simp_all add: sampleWorld_def ENOENT_def)
  have a4: "sendRequest 1 [1, 2] 2 sampleEngine ?w =
     Inr ((0, sampleEngine\<lparr>mSessions :=
             [(1, (sampleSession DATAGRAM False)\<lparr>mOutDatagrams := [[1, 2]]\<rparr>)]\<rparr>),
          \<lparr>script = [], clock = (\<lambda>n. 1000000 + of_nat n),
           trace = [Lock, PipeWrite 4, Unlock]\<rparr>)"
    unfolding t4 p by (simp add: sampleWorld_def sampleEngine_def valueAt_def OK_def)
  have a5: "destroySession 1 sampleEngine ?w =
     Inr ((0, sampleEngine\<lparr>mSessions := []\<rparr>),
          \<lparr>script = [], clock = (\<lambda>n. 1000000 + of_nat n),
           trace = [Lock, Close 7, PipeWrite 4, Unlock]\<rparr>)"
    unfolding t5 p v
    by (simp add: sampleWorld_def sampleEngine_def sampleSession_def removeItemsAt_def OK_def)
  from t1 t6 c u a2 a3 t3 a4 a5 show ?thesis
    by (simp only: OK_def simp_thms)
qed

text \<open>
  Against claim C3 as stated: \<open>connectUDPSession\<close> on a session of the map, with the
  host resolved and the socket connected, returns \<^verbatim>\<open>OK\<close> and has only taken and
  released the mutex; nothing was written to the pipe.
\<close>

theorem connect_udp_session_no_wake_counterexample:
  "(case connectUDPSession 1 ''sink'' 9 sampleEngine (sampleWorld [resolved 1, sysResult 0 0]) of
      Inl f \<Rightarrow> False
    | Inr ((err, e), w') \<Rightarrow>
        err = 0 \<and> e = sampleEngine \<and> trace w' = [Lock, Unlock]
        \<and> PipeWrite (snd (mPipeFd sampleEngine)) \<notin> set (trace w'))"
  using connect_sample by (simp add: OK_def)

section \<open>Lives of an engine\<close>

text \<open>
  The invariant holds along every sequence of calls; what the dispatch pass of the thread
  adds to the map; sample runs.
\<close>

lemma step_engineOK:
  assumes "step Parse whatError c e w = Inr (e', w')" and "engineOK (fst e) w"
  shows "engineOK (fst e') w'"
proof -
  obtain this ready where e: "e = (this, ready)" by (cases e)
  show ?thesis
  proof (cases c)
    case CallStart
    with assms show ?thesis
      by (auto simp: e io_Inr dest: start_inv)
  next
    case CallStop
    with assms show ?thesis
      by (auto simp: e io_Inr dest: stop_inv)
  next
    case (CallCreate mode localAddr port remoteHost remotePort notify)
    with assms show ?thesis
      by (auto simp: e io_Inr dest: createClientOrServer_inv)
  next
    case (CallDestroySession sessionID)
    with assms show ?thesis
      by (auto simp: e io_Inr dest: destroySession_inv)
  next
    case (CallConnectUDPSession sessionID remoteHost remotePort)
    with assms show ?thesis
      by (auto simp: e io_Inr dest: connectUDPSession_inv)
  next
    case (CallSendRequest sessionID data sz)
    with assms show ?thesis
      by (auto simp: e io_Inr dest: sendRequest_inv)
  next
    case CallThreadSelect
    with assms show ?thesis
      by (auto simp: e io_Inr dest!: threadLoopSelect_quiet intro: engineOK_quiet)
  next
    case CallThreadDispatch
    with assms show ?thesis
      by (auto simp: e io_Inr split: option.splits dest: threadLoopDispatch_inv)
  qed
qed

lemma run_engineOK:
  assumes "run Parse whatError cs e w = Inr (e', w')" and "engineOK (fst e) w"
  shows "engineOK (fst e') w'"
  using assms
proof (induction cs arbitrary: e w)
  case Nil
  then show ?case by simp
next
  case (Cons c cs)
  from Cons.prems(1) obtain e1 w1 where s: "step Parse whatError c e w = Inr (e1, w1)"
    and r: "run Parse whatError cs e1 w1 = Inr (e', w')"
    by (auto split: sum.splits)
  from Cons.IH [OF r step_engineOK [OF s Cons.prems(2)]] show ?case .
qed

lemma engineOK_new:
  "constructedIDs (trace w) = [] \<Longrightarrow> engineOK newANetworkSession w"
  by (simp add: engineOK_def engineInv_def counterInv_def newANetworkSession_def
      sessionsSorted_def)

lemma acceptClient_child:
  assumes "acceptClient session c w = Inr ((child, c'), w')"
  shows "case child of
           None \<Rightarrow> c' = c \<and> quiet w w'
         | Some ch \<Rightarrow> mSessionID ch = c \<and> c' = c + 1
             \<and> constructedIDs (trace w') = constructedIDs (trace w) @ [c]"
proof (cases child)
  case None
  with assms show ?thesis
    by (auto simp: acceptClient_def io_Inr quiet_def split: if_splits
        dest!: syscall_trace MakeSocketNonBlocking_trace)
next
  case (Some ch)
  with assms obtain acc w1 err w2 cs where "syscall w = Inr (acc, w1)"
    "MakeSocketNonBlocking (ret acc) w1 = Inr (err, w2)"
    and n: "newSession c CONNECTED (ret acc) (mNotify session) w2 = Inr (cs, w')"
    and ch: "ch = setIsRTSPConnection (isRTSPServer session) cs" "c' = c + 1"
    by (auto simp: acceptClient_def io_Inr split: if_splits)
  then have "trace w2 = trace w"
    by (auto dest!: syscall_trace MakeSocketNonBlocking_trace)
  with newSession_Inr(1,2) [OF n] ch Some show ?thesis
    by (auto simp: setIsRTSPConnection_def)
qed

lemma dispatch_children:
  assumes "dispatch i Parse whatError rs ws res toAdd this w = Inr ((toAdd', this'), w')"
  shows "\<exists>new. constructedIDs (trace w') = constructedIDs (trace w) @ new
               \<and> map mSessionID toAdd' = map mSessionID toAdd @ new"
  using assms
proof (induction i arbitrary: res toAdd this w)
  case 0
  then show ?case by (simp add: dispatch.simps)
next
  case (Suc i)
  let ?session = "valueAt i (mSessions this)"
  let ?s = "mSocket ?session"
  let ?c = "mNextSessionID this"
  show ?case
  proof (cases "res > 0")
    case False
    with Suc.prems show ?thesis by (simp add: dispatch.simps)
  next
    case True
    note res = this
    show ?thesis
    proof (cases "?s < 0")
      case True
      with res Suc.prems(1) have "dispatch i Parse whatError rs ws res toAdd this w = Inr ((toAdd', this'), w')"
        by (simp add: dispatch.simps Let_def)
      from Suc.IH [OF this] show ?thesis .
    next
      case False
      let ?res' = "if ?s \<in> set rs \<or> ?s \<in> set ws then res - 1 else res"
      let ?rd = "if ?s \<in> set rs then
                 (if isRTSPServer ?session \<or> isTCPDatagramServer ?session then
                    io_bind (acceptClient ?session ?c) (\<lambda>(child, nextID).
                      io_return (?session, nextID,
                        (case child of None \<Rightarrow> toAdd | Some c \<Rightarrow> toAdd @ [c])))
                  else
                    io_bind (readMore Parse ?session) (\<lambda>(err, session').
                      io_return (session', ?c, toAdd)))
               else io_return (?session, ?c, toAdd)"
      from res False Suc.prems(1) obtain session1 nextID toAdd1 w1 session2 w2 where
        rd: "?rd w = Inr ((session1, nextID, toAdd1), w1)"
        and wr: "(if ?s \<in> set ws then
                      io_bind (writeMore whatError session1) (\<lambda>(err, session'). io_return session')
                    else io_return session1) w1 = Inr (session2, w2)"
        and rec: "dispatch i Parse whatError rs ws ?res' toAdd1
                       (this\<lparr>mNextSessionID := nextID,
                             mSessions := (mSessions this)[i := (fst (mSessions this ! i), session2)]\<rparr>)
                       w2 = Inr ((toAdd', this'), w')"
        by (simp add: dispatch.simps Let_def split: sum.splits prod.splits)
      have r: "\<exists>new. constructedIDs (trace w1) = constructedIDs (trace w) @ new
               \<and> map mSessionID toAdd1 = map mSessionID toAdd @ new"
      proof (cases "?s \<in> set rs")
        case False
        with rd show ?thesis by (simp add: io_return_Inr)
      next
        case True
        note inrs = this
        show ?thesis
        proof (cases "isRTSPServer ?session \<or> isTCPDatagramServer ?session")
          case True
          with inrs rd obtain child where
            a: "acceptClient ?session ?c w = Inr ((child, nextID), w1)"
            and ta: "toAdd1 = (case child of None \<Rightarrow> toAdd | Some c \<Rightarrow> toAdd @ [c])"
            by (auto simp: io_Inr)
          from acceptClient_child [OF a] ta show ?thesis
            by (auto split: option.splits dest: quiet_ids)
        next
          case False
          with inrs rd obtain err where
            a: "readMore Parse ?session w = Inr ((err, session1), w1)"
            and s1: "toAdd1 = toAdd"
            by (auto simp: io_Inr)
          from readMore_quiet [OF a] s1 show ?thesis
            by (auto dest: quiet_ids)
        qed
      qed
      have q: "quiet w1 w2"
      proof (cases "?s \<in> set ws")
        case False
        with wr show ?thesis by (simp add: io_return_Inr)
      next
        case True
        with wr obtain err where "writeMore whatError session1 w1 = Inr ((err, session2), w2)"
          by (auto simp: io_Inr)
        from writeMore_quiet [OF this] show ?thesis by simp
      qed
      from Suc.IH [OF rec] r quiet_ids [OF q] show ?thesis
        by auto
    qed
  qed
qed

lemma threadLoopDispatch_children:
  assumes "threadLoopDispatch Parse whatError ready this w = Inr (this', w')" and "engineOK this w"
  shows "\<exists>new. constructedIDs (trace w') = constructedIDs (trace w) @ new
               \<and> fst ` set (mSessions this') = fst ` set (mSessions this) \<union> set new"
proof -
  obtain res rs' ws' where ready: "ready = (res, rs', ws')"
    by (cases ready) auto
  let ?w3 = "w\<lparr>trace := trace w @ [Lock]\<rparr>"
  have q3: "quiet w ?w3"
    by (auto simp: quiet_def)
  from assms(1) obtain toAdd this1 w4 sessions w5 where
    d: "dispatch (length (mSessions this)) Parse whatError rs' ws' res [] this ?w3
          = Inr ((toAdd, this1), w4)"
    and a: "addSessions toAdd (mSessions this1) w4 = Inr (sessions, w5)"
    and e: "this' = this1\<lparr>mSessions := sessions\<rparr>" "trace w' = trace w5 @ [Unlock]"
    unfolding threadLoopDispatch_def ready prod.case
    by (elim io_thenE io_bindE) (auto simp: emit_Inr io_Inr)
  have ok3: "engineOK this ?w3"
    using assms(2) q3 by (rule engineOK_quiet)
  have "staged [] ?w3" by (simp add: staged_def)
  from dispatch_inv [OF d order_refl ok3 this]
  have ok4: "engineOK this1 w4"
    and k4: "map fst (mSessions this1) = map fst (mSessions this)"
    by simp_all
  from dispatch_children [OF d] have n: "constructedIDs (trace w4) =
      constructedIDs (trace w) @ map mSessionID toAdd"
    by simp
  from ok4 have "sessionsSorted (mSessions this1)" "\<forall>(k, s)\<in>set (mSessions this1). mSessionID s = k"
    by (simp_all add: engineOK_def engineInv_def)
  from addSessions_inv [OF a this]
  have q5: "quiet w4 w5"
    and k5: "fst ` set sessions = fst ` set (mSessions this1) \<union> mSessionID ` set toAdd"
    by simp_all
  have q6: "quiet w4 w'"
    using q5 e(2) by (auto simp: quiet_def)
  have k1: "fst ` set (mSessions this1) = fst ` set (mSessions this)"
    using k4 by (metis set_map)
  show ?thesis
    using n quiet_ids [OF q6] k5 k1 by (auto simp: e intro!: exI [of _ "map mSessionID toAdd"])
qed

lemma sint_of_nat_small:
  assumes "i < 2 ^ 31"
  shows "sint (word_of_nat i :: int32) = int i"
proof -
  have "int i < 2 ^ 31"
    using assms by (metis of_nat_less_iff of_nat_numeral of_nat_power)
  then have "signed_take_bit 31 (int i) = int i"
    by (simp add: signed_take_bit_int_eq_self)
  moreover have "unat (word_of_nat i :: int32) = i"
    using assms by (simp add: unat_of_nat)
  then have "uint (word_of_nat i :: int32) = int i"
    by (simp add: uint_nat)
  ultimately show ?thesis
    by (simp add: sint_uint)
qed

lemma sint_issued:
  assumes "n < 2 ^ 31"
  shows "map sint (map word_of_nat [1..<Suc n] :: int32 list) = map int [1..<Suc n]"
  using assms by (auto intro!: sint_of_nat_small)

lemma createClientOrServer_issues:
  assumes "createClientOrServer mode localAddr port remoteHost remotePort notify this w
        = Inr ((err, sid, this'), w')" and "this' \<noteq> this"
  shows "sid = mNextSessionID this \<and> mNextSessionID this' = sid + 1
    \<and> constructedIDs (trace w') = constructedIDs (trace w) @ [sid]
    \<and> sid \<in> fst ` set (mSessions this')"
proof -
  from createClientOrServer_cases [OF assms(1)] assms(2)
  obtain session sessions wa wb tr where 1: "sid = mNextSessionID this"
    and add: "sessionsAdd sid session (mSessions this) wa = Inr (sessions, wb)"
    and 2: "this' = this\<lparr>mNextSessionID := mNextSessionID this + 1, mSessions := sessions\<rparr>"
    and 3: "closesOnly tr" "trace w' = trace w @ [Lock, Construct sid] @ tr
                     @ [PipeWrite (snd (mPipeFd this)), Unlock]"
    by auto
  from add have "sid \<in> fst ` set sessions"
    by (auto simp: sessionsAdd_def io_Inr insertSorted_set split: option.splits
        dest!: indexOfKey_Some intro!: image_eqI [of _ fst "(sid, session)"]
        simp: set_update_memI)
  with 1 2 3 show ?thesis
    by (simp add: closesOnly_ids)
qed

lemmas sample_defs = sampleCalls_def sampleScript_def selected_def piped_def
  sampleListener_def sampleChild_def newANetworkSession_def start_def
  threadLoopSelect_def threadLoopDispatch_def acceptClient_def
  wantsToRead_def wantsToWrite_def isRTSPServer_def isTCPDatagramServer_def

lemma start_sample:
  "start newANetworkSession (sampleWorld (piped 3 4 # sysResult 0 0 # scr)) =
     Inr ((OK, newANetworkSession\<lparr>mPipeFd := (3, 4), mThread := True\<rparr>), sampleWorld scr)"
  by (simp add: sample_defs engine_defs)

lemma create_listener_sample:
  "createClientOrServer kModeCreateRTSPServer None 7236 None 0 5
     (newANetworkSession\<lparr>mPipeFd := (3, 4), mThread := True\<rparr>)
     (sampleWorld (sysResult 8 0 # sysResult 0 0 # sysResult 0 0 # sysResult 0 0
        # sysResult 0 0 # sysResult 0 0 # sysResult 1 0 # scr)) =
     Inr ((OK, 1, \<lparr>mNextSessionID = 2, mSessions = [(1, sampleListener)],
                    mPipeFd = (3, 4), mThread = True\<rparr>),
          (sampleWorld scr)\<lparr>trace := [Lock, Construct 1, PipeWrite 4, Unlock]\<rparr>)"
  by (simp add: sample_defs engine_defs)

lemma select_sample:
  "threadLoopSelect \<lparr>mNextSessionID = 2, mSessions = [(1, sampleListener)],
                    mPipeFd = (3, 4), mThread = True\<rparr>
     ((sampleWorld (selected 2 [3, 8] [] # sysResult 1 0 # scr))\<lparr>trace := tr\<rparr>) =
     Inr (Some (1, [3, 8], []), (sampleWorld scr)\<lparr>trace := tr @ [Lock, Unlock]\<rparr>)"
  by (simp add: sample_defs engine_defs)

lemma char_of_48: "char_of (48 :: nat) = CHR ''0''"
  by code_simp

lemma dispatch_sample:
  "threadLoopDispatch sampleParse 0 (1, [3, 8], [])
     \<lparr>mNextSessionID = 2, mSessions = [(1, sampleListener)],
                    mPipeFd = (3, 4), mThread = True\<rparr>
     ((sampleWorld [sysResult 9 0, sysResult 0 0, sysResult 0 0, sysResult 0 0, sysResult 0 0])
        \<lparr>trace := tr\<rparr>) =
     Inr (\<lparr>mNextSessionID = 3, mSessions = [(1, sampleListener), (2, sampleChild)],
                    mPipeFd = (3, 4), mThread = True\<rparr>,
          (sampleWorld [])\<lparr>trace := tr @ [Lock, Construct 2,
             Post 5 (kWhatClientConnected 2 ''0.0.0.0'' 0 ''0.0.0.0'' 0), Unlock]\<rparr>)"
  by (simp add: sample_defs engine_defs dispatch.simps dottedQuad_def decimal.simps char_of_48)

lemma run_sample:
  "run sampleParse 0 sampleCalls (newANetworkSession, None) (sampleWorld sampleScript) =
     Inr ((\<lparr>mNextSessionID = 3, mSessions = [(1, sampleListener), (2, sampleChild)],
             mPipeFd = (3, 4), mThread = True\<rparr>, None),
          (sampleWorld [])\<lparr>trace := [Lock, Construct 1, PipeWrite 4, Unlock, Lock, Unlock,
             Lock, Construct 2,
             Post 5 (kWhatClientConnected 2 ''0.0.0.0'' 0 ''0.0.0.0'' 0), Unlock]\<rparr>)"
  by (simp add: sampleCalls_def sampleScript_def start_sample create_listener_sample
      select_sample dispatch_sample io_defs)

section \<open>Session identifiers\<close>

text \<open>
  Claim C6, as the code has it. \<open>mNextSessionID\<close> is an \<^verbatim>\<open>int32_t\<close> that starts at 1
  and is incremented at each of the two places that construct a session
  (\<^verbatim>\<open>createClientOrServer\<close> and the accept branch of \<^verbatim>\<open>threadLoop\<close>); the increment
  wraps. So, in any life of an engine, the \<open>i\<close>-th ID issued is \<open>i\<close> as a 32-bit
  integer and the counter is one ahead; every session of the map is filed under its own
  ID, which was issued. While fewer than \<open>2\<^sup>3\<^sup>1\<close> IDs have been issued they are
  \<open>1, 2, 3, \<dots>\<close> as signed integers: they start at 1, increase strictly in creation
  order and are pairwise different. A creation that creates its session returns the
  counter's value as the ID, files the session under it and increments the counter. A
  dispatch pass of the thread keeps every key of the map (a listener keeps its ID) and
  adds exactly the IDs it issued to the accepted children.
\<close>

theorem session_ids_in_creation_order:
  "(run Parse whatError calls (newANetworkSession, None) w0 = Inr ((this, ready), w)
      \<and> issuedIDs w0 = [] \<longrightarrow>
      issuedIDs w = map word_of_nat [1..<Suc (length (issuedIDs w))]
      \<and> mNextSessionID this = word_of_nat (Suc (length (issuedIDs w)))
      \<and> (\<forall>(k, s)\<in>set (mSessions this). mSessionID s = k \<and> k \<in> set (issuedIDs w))
      \<and> engineOK this w
      \<and> (length (issuedIDs w) < 2 ^ 31 \<longrightarrow>
           map sint (issuedIDs w) = map int [1..<Suc (length (issuedIDs w))]
           \<and> sorted_wrt (\<lambda>a b. sint a < sint b) (issuedIDs w)
           \<and> distinct (issuedIDs w)))
   \<and> (createClientOrServer mode localAddr port remoteHost remotePort notify this1 w1
          = Inr ((err, sid, this2), w2) \<and> this2 \<noteq> this1 \<longrightarrow>
        sid = mNextSessionID this1 \<and> mNextSessionID this2 = sid + 1
        \<and> issuedIDs w2 = issuedIDs w1 @ [sid]
        \<and> sid \<in> fst ` set (mSessions this2))
   \<and> (threadLoopDispatch Parse whatError r this3 w3 = Inr (this4, w4)
        \<and> engineOK this3 w3 \<longrightarrow>
        engineOK this4 w4
        \<and> (\<exists>new. issuedIDs w4 = issuedIDs w3 @ new
              \<and> fst ` set (mSessions this4) = fst ` set (mSessions this3) \<union> set new))"
proof (intro conjI impI)
  assume a: "run Parse whatError calls (newANetworkSession, None) w0 = Inr ((this, ready), w)
      \<and> issuedIDs w0 = []"
  then have "engineOK (fst (newANetworkSession, None :: (int \<times> int list \<times> int list) option)) w0"
    by (simp add: engineOK_new issuedIDs_def)
  from run_engineOK [OF conjunct1 [OF a] this] show ok: "engineOK this w"
    by simp
  let ?n = "length (issuedIDs w)"
  from ok show i: "issuedIDs w = map word_of_nat [1..<Suc ?n]"
    and "mNextSessionID this = word_of_nat (Suc ?n)"
    by (simp_all add: engineOK_def counterInv_def issuedIDs_def)
  from ok show "\<forall>(k, s)\<in>set (mSessions this). mSessionID s = k \<and> k \<in> set (issuedIDs w)"
    unfolding engineOK_def engineInv_def issuedIDs_def by force
  assume n: "?n < 2 ^ 31"
  from i have "map sint (issuedIDs w) = map sint (map word_of_nat [1..<Suc ?n] :: int32 list)"
    by (rule arg_cong)
  also have "\<dots> = map int [1..<Suc ?n]"
    by (rule sint_issued [OF n])
  finally show s: "map sint (issuedIDs w) = map int [1..<Suc ?n]" .
  have "sorted_wrt (<) (map int [1..<Suc ?n])"
    by (simp add: sorted_wrt_map del: upt_Suc)
  then show "sorted_wrt (\<lambda>a b. sint a < sint b) (issuedIDs w)"
    unfolding s [symmetric] by (simp add: sorted_wrt_map)
  have "distinct (map int [1..<Suc ?n])"
    by (simp add: distinct_map del: upt_Suc)
  then show "distinct (issuedIDs w)"
    unfolding s [symmetric] by (simp add: distinct_map)
next
  assume "createClientOrServer mode localAddr port remoteHost remotePort notify this1 w1
          = Inr ((err, sid, this2), w2) \<and> this2 \<noteq> this1"
  then have "sid = mNextSessionID this1 \<and> mNextSessionID this2 = sid + 1
    \<and> constructedIDs (trace w2) = constructedIDs (trace w1) @ [sid]
    \<and> sid \<in> fst ` set (mSessions this2)"
    by (auto dest: createClientOrServer_issues)
  then show "sid = mNextSessionID this1" "mNextSessionID this2 = sid + 1"
    "issuedIDs w2 = issuedIDs w1 @ [sid]" "sid \<in> fst ` set (mSessions this2)"
    by (auto simp: issuedIDs_def)
next
  assume a: "threadLoopDispatch Parse whatError r this3 w3 = Inr (this4, w4)
        \<and> engineOK this3 w3"
  from threadLoopDispatch_inv [OF conjunct1 [OF a] conjunct2 [OF a]]
  show "engineOK this4 w4" by simp
  from threadLoopDispatch_children [OF conjunct1 [OF a] conjunct2 [OF a]]
  show "\<exists>new. issuedIDs w4 = issuedIDs w3 @ new
              \<and> fst ` set (mSessions this4) = fst ` set (mSessions this3) \<union> set new"
    by (simp add: issuedIDs_def)
qed

theorem session_ids_in_creation_order_witness:
  "(\<exists>this w. run sampleParse 0 sampleCalls (newANetworkSession, None) (sampleWorld sampleScript)
        = Inr ((this, None), w)
      \<and> issuedIDs w = [1, 2] \<and> map sint (issuedIDs w) = [1, 2]
      \<and> mNextSessionID this = 3 \<and> map fst (mSessions this) = [1, 2])
   \<and> (\<exists>this2 w2. createClientOrServer kModeCreateRTSPServer None 7236 None 0 5
          (newANetworkSession\<lparr>mPipeFd := (3, 4), mThread := True\<rparr>)
          (sampleWorld [sysResult 8 0, sysResult 0 0, sysResult 0 0, sysResult 0 0,
             sysResult 0 0, sysResult 0 0, sysResult 1 0]) = Inr ((0, 1, this2), w2)
      \<and> mNextSessionID this2 = 2 \<and> issuedIDs w2 = [1] \<and> map fst (mSessions this2) = [1])
   \<and> (\<exists>this4 w4. threadLoopDispatch sampleParse 0 (1, [3, 8], [])
          \<lparr>mNextSessionID = 2, mSessions = [(1, sampleListener)],
            mPipeFd = (3, 4), mThread = True\<rparr>
          ((sampleWorld [sysResult 9 0, sysResult 0 0, sysResult 0 0, sysResult 0 0,
              sysResult 0 0])\<lparr>trace := [Construct 1]\<rparr>) = Inr (this4, w4)
      \<and> issuedIDs w4 = [1, 2] \<and> map fst (mSessions this4) = [1, 2])"
proof -
  note T = session_ids_in_creation_order
  have i0: "issuedIDs (sampleWorld sampleScript) = []"
    by (simp add: issuedIDs_def sampleWorld_def)
  note t1 = T [THEN conjunct1, rule_format, OF conjI [OF run_sample i0]]
  have a: "\<exists>this w. run sampleParse 0 sampleCalls (newANetworkSession, None)
        (sampleWorld sampleScript) = Inr ((this, None), w)
      \<and> issuedIDs w = [1, 2] \<and> map sint (issuedIDs w) = [1, 2]
      \<and> mNextSessionID this = 3 \<and> map fst (mSessions this) = [1, 2]"
    using t1 run_sample by (simp add: issuedIDs_def sampleWorld_def)
  note c = create_listener_sample [of "[]"]
  have ne: "\<lparr>mNextSessionID = 2, mSessions = [(1, sampleListener)],
              mPipeFd = (3, 4), mThread = True\<rparr>
      \<noteq> newANetworkSession\<lparr>mPipeFd := (3, 4), mThread := True\<rparr>"
    by (simp add: newANetworkSession_def)
  note t2 = T [THEN conjunct2, THEN conjunct1, rule_format, OF conjI [OF c ne]]
  have b: "\<exists>this2 w2. createClientOrServer kModeCreateRTSPServer None 7236 None 0 5
          (newANetworkSession\<lparr>mPipeFd := (3, 4), mThread := True\<rparr>)
          (sampleWorld [sysResult 8 0, sysResult 0 0, sysResult 0 0, sysResult 0 0,
             sysResult 0 0, sysResult 0 0, sysResult 1 0]) = Inr ((0, 1, this2), w2)
      \<and> mNextSessionID this2 = 2 \<and> issuedIDs w2 = [1] \<and> map fst (mSessions this2) = [1]"
    using t2 c by (simp add: issuedIDs_def sampleWorld_def OK_def)
  note d = dispatch_sample [of "[Construct 1]"]
  have ok: "engineOK \<lparr>mNextSessionID = 2, mSessions = [(1, sampleListener)],
            mPipeFd = (3, 4), mThread = True\<rparr>
          ((sampleWorld [sysResult 9 0, sysResult 0 0, sysResult 0 0, sysResult 0 0,
              sysResult 0 0])\<lparr>trace := [Construct 1]\<rparr>)"
    by (simp add: engineOK_def engineInv_def counterInv_def sessionsSorted_def
        sampleListener_def)
  note t3 = T [THEN conjunct2, THEN conjunct2, rule_format, OF conjI [OF d ok]]
  have e: "\<exists>this4 w4. threadLoopDispatch sampleParse 0 (1, [3, 8], [])
          \<lparr>mNextSessionID = 2, mSessions = [(1, sampleListener)],
            mPipeFd = (3, 4), mThread = True\<rparr>
          ((sampleWorld [sysResult 9 0, sysResult 0 0, sysResult 0 0, sysResult 0 0,
              sysResult 0 0])\<lparr>trace := [Construct 1]\<rparr>) = Inr (this4, w4)
      \<and> issuedIDs w4 = [1, 2] \<and> map fst (mSessions this4) = [1, 2]"
    using t3 d by (simp add: issuedIDs_def sampleWorld_def)
  from a b e show ?thesis by (intro conjI)
qed

lemma round_create:
  "createClientOrServer kModeCreateUDPSession None 0 None 0 5
     \<lparr>mNextSessionID = c, mSessions = [], mPipeFd = p, mThread = t\<rparr>
     \<lparr>script = sysResult 8 0 # sysResult 0 0 # sysResult 0 0 # sysResult 0 0 # sysResult 0 0
        # sysResult 0 0 # sysResult 1 0 # scr, clock = ck, trace = tr\<rparr> =
   Inr ((OK, c, \<lparr>mNextSessionID = c + 1,
                  mSessions = [(c, \<lparr> mSessionID = c, mState = DATAGRAM, mIsRTSPConnection = False,
                   mSocket = 8, mNotify = 5, mSawReceiveFailure = False,
                   mSawSendFailure = False, mOutBuffer = [], mOutDatagrams = [],
                   mInBuffer = [] \<rparr>)], mPipeFd = p, mThread = t\<rparr>),
        \<lparr>script = scr, clock = ck, trace = tr @ [Lock, Construct c, PipeWrite (snd p), Unlock]\<rparr>)"
  by (simp add: engine_defs)

lemma round_destroy:
  "destroySession c
     \<lparr>mNextSessionID = c', mSessions = [(c, s)], mPipeFd = p, mThread = t\<rparr>
     \<lparr>script = sysResult 1 0 # scr, clock = ck, trace = tr\<rparr> =
   Inr ((OK, \<lparr>mNextSessionID = c', mSessions = [], mPipeFd = p, mThread = t\<rparr>),
        \<lparr>script = scr, clock = ck,
         trace = tr @ [Lock, Close (mSocket s), PipeWrite (snd p), Unlock]\<rparr>)"
  by (simp add: engine_defs)

lemma churn_run:
  "\<exists>tr'. run Parse whatError (churn i n)
       (\<lparr>mNextSessionID = word_of_nat i, mSessions = [], mPipeFd = p, mThread = t\<rparr>, r)
       \<lparr>script = concat (replicate n roundScript) @ scr, clock = ck, trace = tr\<rparr> =
     Inr ((\<lparr>mNextSessionID = word_of_nat (i + n), mSessions = [], mPipeFd = p, mThread = t\<rparr>, r),
          \<lparr>script = scr, clock = ck, trace = tr @ tr'\<rparr>)
     \<and> constructedIDs tr' = map word_of_nat [i..<i + n]"
proof (induction n arbitrary: i tr)
  case 0
  show ?case by simp
next
  case (Suc n)
  let ?tr1 = "tr @ [Lock, Construct (word_of_nat i), PipeWrite (snd p), Unlock,
     Lock, Close 8, PipeWrite (snd p), Unlock]"
  from Suc [of "Suc i" ?tr1] obtain tr' where
    r: "run Parse whatError (churn (Suc i) n)
       (\<lparr>mNextSessionID = word_of_nat (Suc i), mSessions = [], mPipeFd = p, mThread = t\<rparr>, r)
       \<lparr>script = concat (replicate n roundScript) @ scr, clock = ck, trace = ?tr1\<rparr> =
     Inr ((\<lparr>mNextSessionID = word_of_nat (Suc i + n), mSessions = [], mPipeFd = p, mThread = t\<rparr>, r),
          \<lparr>script = scr, clock = ck, trace = ?tr1 @ tr'\<rparr>)"
    and c: "constructedIDs tr' = map word_of_nat [Suc i..<Suc i + n]"
    by blast
  have s: "concat (replicate (Suc n) roundScript) @ scr =
      sysResult 8 0 # sysResult 0 0 # sysResult 0 0 # sysResult 0 0 # sysResult 0 0
        # sysResult 0 0 # sysResult 1 0 # sysResult 1 0 # concat (replicate n roundScript) @ scr"
    by (simp add: roundScript_def)
  have "run Parse whatError (churn i (Suc n))
       (\<lparr>mNextSessionID = word_of_nat i, mSessions = [], mPipeFd = p, mThread = t\<rparr>, r)
       \<lparr>script = concat (replicate (Suc n) roundScript) @ scr, clock = ck, trace = tr\<rparr> =
     Inr ((\<lparr>mNextSessionID = word_of_nat (i + Suc n), mSessions = [], mPipeFd = p, mThread = t\<rparr>, r),
          \<lparr>script = scr, clock = ck, trace = tr @ ([Lock, Construct (word_of_nat i),
             PipeWrite (snd p), Unlock, Lock, Close 8, PipeWrite (snd p), Unlock] @ tr')\<rparr>)"
    unfolding s using r
    by (simp add: round_create round_destroy io_bind_def io_return_def ac_simps)
  moreover have "constructedIDs ([Lock, Construct (word_of_nat i),
             PipeWrite (snd p), Unlock, Lock, Close 8, PipeWrite (snd p), Unlock] @ tr')
      = map word_of_nat [i..<i + Suc n]"
    using c by (simp add: upt_conv_Cons del: upt_Suc)
  ultimately show ?case by blast
qed

lemma wrap_values:
  "sint (word_of_nat (1 + (2 ^ 31 - 2)) :: int32) = 2147483647"
  "sint (word_of_nat (1 + (2 ^ 31 - 1)) :: int32) = - 2147483648"
  "(word_of_nat (1 + 0) :: int32) = 1"
  "(word_of_nat (1 + 2 ^ 32) :: int32) = 1"
  by simp_all

text \<open>
  Against claim C6 as stated: an engine whose client creates and destroys a UDP session
  \<open>2\<^sup>3\<^sup>2 + 1\<close> times. The \<open>2\<^sup>3\<^sup>1\<close>-th ID issued is \<open>-2\<^sup>3\<^sup>1\<close>, less than the ID
  \<open>2\<^sup>3\<^sup>1 - 1\<close> issued just before it, and the last ID issued is 1, as the first was.
\<close>

theorem session_id_wrap_counterexample:
  "\<exists>this w. run sampleParse 0 (churn 1 (2 ^ 32 + 1)) (newANetworkSession, None)
       (sampleWorld (concat (replicate (2 ^ 32 + 1) roundScript))) = Inr ((this, None), w)
     \<and> length (issuedIDs w) = 2 ^ 32 + 1
     \<and> sint (issuedIDs w ! (2 ^ 31 - 2)) = 2147483647
     \<and> sint (issuedIDs w ! (2 ^ 31 - 1)) = - 2147483648
     \<and> issuedIDs w ! 0 = 1 \<and> issuedIDs w ! (2 ^ 32) = 1"
proof -
  define N :: nat where "N = 2 ^ 32 + 1"
  let ?ck = "\<lambda>n. 1000000 + of_nat n :: int64"
  from churn_run [of sampleParse 0 1 N "(- 1, - 1)" False None "[]" ?ck "[]"]
  obtain tr' where
    r: "run sampleParse 0 (churn 1 N)
       (\<lparr>mNextSessionID = word_of_nat 1, mSessions = [], mPipeFd = (- 1, - 1), mThread = False\<rparr>, None)
       \<lparr>script = concat (replicate N roundScript) @ [], clock = ?ck, trace = []\<rparr> =
     Inr ((\<lparr>mNextSessionID = word_of_nat (1 + N), mSessions = [], mPipeFd = (- 1, - 1),
             mThread = False\<rparr>, None),
          \<lparr>script = [], clock = ?ck, trace = [] @ tr'\<rparr>)"
    and c: "constructedIDs tr' = map word_of_nat [1..<1 + N]"
    by blast
  let ?w = "\<lparr>script = [], clock = ?ck, trace = [] @ tr'\<rparr>"
  have i: "issuedIDs ?w = map word_of_nat [1..<1 + N]"
    by (simp add: issuedIDs_def c)
  have n: "\<And>j. j < N \<Longrightarrow> issuedIDs ?w ! j = word_of_nat (1 + j)"
    unfolding i by (simp del: upt_Suc of_nat_add of_nat_Suc)
  have l: "length (issuedIDs ?w) = N"
    unfolding i by simp
  have b: "2 ^ 31 - 2 < N" "2 ^ 31 - 1 < N" "0 < N" "2 ^ 32 < N"
    by (simp_all add: N_def)
  have e: "newANetworkSession = \<lparr>mNextSessionID = word_of_nat 1, mSessions = [],
      mPipeFd = (- 1, - 1), mThread = False\<rparr>"
    by (simp add: newANetworkSession_def)
  have w: "sampleWorld (concat (replicate N roundScript)) =
      \<lparr>script = concat (replicate N roundScript) @ [], clock = ?ck, trace = []\<rparr>"
    unfolding sampleWorld_def append_Nil2 ..
  have "run sampleParse 0 (churn 1 N) (newANetworkSession, None)
       (sampleWorld (concat (replicate N roundScript)))
       = Inr ((\<lparr>mNextSessionID = word_of_nat (1 + N), mSessions = [], mPipeFd = (- 1, - 1),
             mThread = False\<rparr>, None), ?w)
     \<and> length (issuedIDs ?w) = N
     \<and> sint (issuedIDs ?w ! (2 ^ 31 - 2)) = 2147483647
     \<and> sint (issuedIDs ?w ! (2 ^ 31 - 1)) = - 2147483648
     \<and> issuedIDs ?w ! 0 = 1 \<and> issuedIDs ?w ! (2 ^ 32) = 1"
    unfolding e w n [OF b(1)] n [OF b(2)] n [OF b(3)] n [OF b(4)] wrap_values l
    using r by (intro conjI refl)
  then show ?thesis
    unfolding N_def by blast
qed

end
